theory Spec2Isabelle
  imports Complex_Main
begin

section \<open>Particle cosmos: force integration, mode blending and sound cues\<close>

text \<open>
  A shallow embedding of \<^verbatim>\<open>src/main.ts\<close> (particle field, mode blender, interaction)
  and of \<^verbatim>\<open>src/audio.ts\<close> (class \<^verbatim>\<open>AmbientSound\<close>).

  JavaScript numbers and the entries of the \<^verbatim>\<open>Float32Array\<close> buffers are modelled as
  \<^typ>\<open>real\<close> with exact arithmetic, except for the blend fraction, whose sum is rounded
  to a double as the program rounds it. Mode indices are \<^typ>\<open>int\<close>.
  \<^verbatim>\<open>Math.random()\<close> is a sequence \<open>random E\<close> of the host together with a counter
  \<open>draws\<close> in the state: the \<open>n\<close>-th call returns \<open>random E n\<close>.
  A property access on \<^verbatim>\<open>undefined\<close> is the error value \<open>TypeError\<close>.
\<close>

subsection \<open>Mode definitions\<close>

record Mode =
  name :: string
  desc :: string
  hueRange :: "real \<times> real"
  satRange :: "real \<times> real"
  lightRange :: "real \<times> real"
  damping :: real
  mouseForce :: real
  drift :: real
  centerPull :: real
  equilibrium :: real
  swirl :: real
  sizeRange :: "real \<times> real"
  bloom :: real
  depthRange :: real

definition BOUNDS :: real where
  "BOUNDS = 40"


definition nebula :: Mode where
  "nebula = \<lparr> name = ''nebula'', desc = ''gentle drift through deep space clouds'',
     hueRange = (0.58, 0.82), satRange = (0.5, 1.0), lightRange = (0.3, 0.75),
     damping = 0.988, mouseForce = 12, drift = 0.02, centerPull = 0.0008,
     equilibrium = 12, swirl = 0.0, sizeRange = (0.4, 2.8), bloom = 1.5,
     depthRange = 25 \<rparr>"

definition solar :: Mode where
  "solar = \<lparr> name = ''solar'', desc = ''the heart of a burning star'',
     hueRange = (0.0, 0.1), satRange = (0.7, 1.0), lightRange = (0.45, 0.9),
     damping = 0.982, mouseForce = 18, drift = 0.04, centerPull = 0.002,
     equilibrium = 8, swirl = 0.0, sizeRange = (0.3, 3.5), bloom = 2.2,
     depthRange = 18 \<rparr>"

definition aurora :: Mode where
  "aurora = \<lparr> name = ''aurora'', desc = ''flowing curtains of light'',
     hueRange = (0.28, 0.52), satRange = (0.6, 1.0), lightRange = (0.3, 0.7),
     damping = 0.993, mouseForce = 6, drift = 0.012, centerPull = 0.0004,
     equilibrium = 15, swirl = 0.002, sizeRange = (0.3, 2.2), bloom = 1.2,
     depthRange = 30 \<rparr>"

definition vortex :: Mode where
  "vortex = \<lparr> name = ''vortex'', desc = ''spiral into the infinite'',
     hueRange = (0.0, 1.0), satRange = (0.8, 1.0), lightRange = (0.4, 0.7),
     damping = 0.984, mouseForce = 10, drift = 0.01, centerPull = 0.003,
     equilibrium = 10, swirl = 0.02, sizeRange = (0.2, 2.0), bloom = 1.8,
     depthRange = 12 \<rparr>"

definition void :: Mode where
  "void = \<lparr> name = ''void'', desc = ''silence between the stars'',
     hueRange = (0.55, 0.68), satRange = (0.03, 0.15), lightRange = (0.5, 0.95),
     damping = 0.996, mouseForce = 4, drift = 0.005, centerPull = 0.0002,
     equilibrium = 18, swirl = 0.0, sizeRange = (0.15, 1.2), bloom = 2.8,
     depthRange = 40 \<rparr>"

definition MODES :: "Mode list" where
  "MODES = [nebula, solar, aurora, vortex, void]"

text \<open>\<^verbatim>\<open>MODES[index]\<close>: \<^verbatim>\<open>undefined\<close> (here \<open>None\<close>) outside the table.\<close>

definition MODES_at :: "int \<Rightarrow> Mode option" where
  "MODES_at index =
     (if 0 \<le> index \<and> index < int (length MODES) then Some (MODES ! nat index) else None)"

datatype error = TypeError

subsection \<open>Physics of one particle\<close>

type_synonym vec3 = "real \<times> real \<times> real"

definition lerp :: "real \<Rightarrow> real \<Rightarrow> real \<Rightarrow> real" where
  "lerp a b t = a + (b - a) * t"

text \<open>Center pull with equilibrium: attracts when far, repels when close.\<close>

fun centerPullStep :: "Mode \<Rightarrow> vec3 \<Rightarrow> vec3 \<Rightarrow> vec3" where
  "centerPullStep m (px, py, pz) (vx, vy, vz) =
     (let centerDist = sqrt (px * px + py * py + pz * pz) + 0.1;
          pullForce = centerPull m * (centerDist - equilibrium m)
      in (vx - (px / centerDist) * pullForce,
          vy - (py / centerDist) * pullForce,
          vz - (pz / centerDist) * pullForce * 0.3))"

text \<open>Mouse gravity, applied when the force \<open>mf\<close> is not zero.\<close>

fun mouseStep :: "real \<Rightarrow> vec3 \<Rightarrow> real \<Rightarrow> vec3 \<Rightarrow> vec3 \<Rightarrow> vec3" where
  "mouseStep mf (mx, my, mz) dt (px, py, pz) (vx, vy, vz) =
     (if mf \<noteq> 0 then
        (let dx = mx - px; dy = my - py; dz = mz - pz;
             distSq = dx * dx + dy * dy + dz * dz + 4;
             f = (mf * dt) / distSq
         in (vx + dx * f, vy + dy * f, vz + dz * f * 0.2))
      else (vx, vy, vz))"

fun swirlStep :: "Mode \<Rightarrow> vec3 \<Rightarrow> vec3 \<Rightarrow> vec3" where
  "swirlStep m (px, py, pz) (vx, vy, vz) =
     (if swirl m > 0 then
        (let dist = sqrt (px * px + pz * pz) + 0.5
         in (vx + (- pz / dist) * swirl m, vy, vz + (px / dist) * swirl m))
      else (vx, vy, vz))"

text \<open>Random drift: \<open>r1\<close>, \<open>r2\<close>, \<open>r3\<close> are the three results of \<^verbatim>\<open>Math.random()\<close>.\<close>

fun driftStep :: "Mode \<Rightarrow> vec3 \<Rightarrow> vec3 \<Rightarrow> vec3" where
  "driftStep m (r1, r2, r3) (vx, vy, vz) =
     (vx + (r1 - 0.5) * drift m, vy + (r2 - 0.5) * drift m, vz + (r3 - 0.5) * drift m * 0.3)"

fun dampingStep :: "Mode \<Rightarrow> vec3 \<Rightarrow> vec3" where
  "dampingStep m (vx, vy, vz) = (vx * damping m, vy * damping m, vz * damping m)"

fun integrateStep :: "real \<Rightarrow> vec3 \<Rightarrow> vec3 \<Rightarrow> vec3" where
  "integrateStep dt (px, py, pz) (vx, vy, vz) =
     (px + vx * dt * 60, py + vy * dt * 60, pz + vz * dt * 60)"

text \<open>
  One axis of the soft boundary:
  \<^verbatim>\<open>if (p > b) { p = b; v *= -0.3; } if (p < -b) { p = -b; v *= -0.3; }\<close>
\<close>

fun bounce :: "real \<Rightarrow> real \<times> real \<Rightarrow> real \<times> real" where
  "bounce b (p, v) =
     (let (p1, v1) = (if p > b then (b, v * (- 0.3)) else (p, v))
      in if p1 < - b then (- b, v1 * (- 0.3)) else (p1, v1))"

fun softBoundary :: "Mode \<Rightarrow> vec3 \<times> vec3 \<Rightarrow> vec3 \<times> vec3" where
  "softBoundary m ((px, py, pz), (vx, vy, vz)) =
     (let (px1, vx1) = bounce BOUNDS (px, vx);
          (py1, vy1) = bounce BOUNDS (py, vy);
          (pz1, vz1) = bounce (depthRange m) (pz, vz)
      in ((px1, py1, pz1), (vx1, vy1, vz1)))"

text \<open>The body of the particle loop of \<^verbatim>\<open>updateParticles\<close>, on its local variables.\<close>

definition stepParticle ::
  "Mode \<Rightarrow> real \<Rightarrow> vec3 \<Rightarrow> real \<Rightarrow> vec3 \<Rightarrow> vec3 \<times> vec3 \<Rightarrow> vec3 \<times> vec3" where
  "stepParticle m mf mouse dt rs pv =
     (let p = fst pv;
          v1 = centerPullStep m p (snd pv);
          v2 = mouseStep mf mouse dt p v1;
          v3 = swirlStep m p v2;
          v4 = driftStep m rs v3;
          v5 = dampingStep m v4;
          p1 = integrateStep dt p v5
      in softBoundary m (p1, v5))"

subsection \<open>The sound engine (class AmbientSound)\<close>

text \<open>
  The Web Audio graph is kept as data: every parameter automation call is an
  \<open>Automation\<close> event, every one-shot source connected to the effects bus and started
  is a \<open>Cue\<close>. The fields of the engine are those the cue methods read and write.
\<close>

datatype Automation =
    SetValueAtTime real real
  | LinearRampToValueAtTime real real
  | ExponentialRampToValueAtTime real real

datatype Cue =
    OscillatorCue string "Automation list" "Automation list" real real
  | NoiseCue "real list" string "real option" "Automation list" "Automation list" real real

record AudioContext =
  currentTime :: real
  sampleRate :: real

record AmbientSound =
  ctx :: "AudioContext option"
  drones :: "Automation list list"
  cues :: "Cue list"
  soundMode :: int
  enabled :: bool

definition MODE_FREQS :: "real list list" where
  "MODE_FREQS =
     [[65.4, 98.0, 164.8], [73.4, 110.0, 185.0], [82.4, 123.5, 207.7],
      [92.5, 138.6, 233.1], [55.0, 82.4, 123.5]]"

definition MODE_FREQS_at :: "int \<Rightarrow> real list option" where
  "MODE_FREQS_at index =
     (if 0 \<le> index \<and> index < int (length MODE_FREQS)
      then Some (MODE_FREQS ! nat index) else None)"

text \<open>
  A buffer of \<open>n\<close> noise samples \<^verbatim>\<open>Math.random() * 2 - 1\<close>, drawn from position \<open>k\<close>
  of the random sequence.
\<close>

definition noiseData :: "(nat \<Rightarrow> real) \<Rightarrow> nat \<Rightarrow> nat \<Rightarrow> real list" where
  "noiseData rnd k n = map (\<lambda>i. rnd (k + i) * 2 - 1) [0..<n]"

text \<open>
  The methods take and return the number of random draws made so far, with the engine.
  Percussive impact: low thump and noise whoosh.
\<close>

definition triggerBurst :: "(nat \<Rightarrow> real) \<Rightarrow> nat \<times> AmbientSound \<Rightarrow> nat \<times> AmbientSound" where
  "triggerBurst rnd ka =
     (case ctx (snd ka) of
        None \<Rightarrow> ka
      | Some c \<Rightarrow>
          if \<not> enabled (snd ka) then ka
          else
            (let k = fst ka; a = snd ka; now = currentTime c;
                 thump = OscillatorCue ''sine''
                   [SetValueAtTime (70 + rnd k * 30) now,
                    ExponentialRampToValueAtTime 25 (now + 0.18)]
                   [SetValueAtTime 0.12 now,
                    ExponentialRampToValueAtTime 0.0001 (now + 0.22)]
                   now (now + 0.25);
                 bufLen = nat \<lfloor>sampleRate c * 0.35\<rfloor>;
                 noise = NoiseCue (noiseData rnd (k + 1) bufLen) ''lowpass'' None
                   [SetValueAtTime 2500 now,
                    ExponentialRampToValueAtTime 150 (now + 0.25)]
                   [SetValueAtTime 0.12 now,
                    ExponentialRampToValueAtTime 0.0001 (now + 0.3)]
                   now (now + 0.35)
             in (k + 1 + bufLen, a\<lparr>cues := cues a @ [thump, noise]\<rparr>)))"

text \<open>Soft rising tone on colour change: two quick rising notes.\<close>

definition risingNote :: "real \<Rightarrow> real \<Rightarrow> real \<Rightarrow> nat \<Rightarrow> Cue" where
  "risingNote base now delay i =
     (let freq = base * (1 + real i * 0.25)
      in OscillatorCue ''sine''
           [SetValueAtTime (freq * 0.9) (now + delay),
            LinearRampToValueAtTime freq (now + delay + 0.08)]
           [SetValueAtTime 0.1 (now + delay),
            ExponentialRampToValueAtTime 0.0001 (now + delay + 0.18)]
           (now + delay) (now + delay + 0.2))"

definition triggerColorChange ::
  "(nat \<Rightarrow> real) \<Rightarrow> nat \<times> AmbientSound \<Rightarrow> nat \<times> AmbientSound" where
  "triggerColorChange rnd ka =
     (case ctx (snd ka) of
        None \<Rightarrow> ka
      | Some c \<Rightarrow>
          if \<not> enabled (snd ka) then ka
          else
            (let k = fst ka; a = snd ka; now = currentTime c;
                 base = 600 + rnd k * 200
             in (k + 1,
                 a\<lparr>cues := cues a @ [risingNote base now 0 0, risingNote base now 0.06 1]\<rparr>)))"

text \<open>
  Descending whoosh on mode change. The fill loop runs while \<^verbatim>\<open>i < ctx.sampleRate\<close>;
  the buffer holds the whole samples.
\<close>

definition triggerSweep :: "(nat \<Rightarrow> real) \<Rightarrow> nat \<times> AmbientSound \<Rightarrow> nat \<times> AmbientSound" where
  "triggerSweep rnd ka =
     (case ctx (snd ka) of
        None \<Rightarrow> ka
      | Some c \<Rightarrow>
          (let k = fst ka; a = snd ka; now = currentTime c;
               bufLen = sampleRate c;
               sweep = NoiseCue (noiseData rnd k (nat \<lfloor>bufLen\<rfloor>)) ''bandpass'' (Some 4)
                 [SetValueAtTime 2500 now,
                  ExponentialRampToValueAtTime 150 (now + 0.6)]
                 [SetValueAtTime 0.04 now,
                  ExponentialRampToValueAtTime 0.0001 (now + 0.6)]
                 now (now + 0.7)
           in (k + nat \<lceil>bufLen\<rceil>, a\<lparr>cues := cues a @ [sweep]\<rparr>)))"

text \<open>
  \<^verbatim>\<open>drones.forEach((osc, i) => osc.frequency.linearRampToValueAtTime(freqs[i], t))\<close>:
  reading \<^verbatim>\<open>freqs[i]\<close> fails when \<^verbatim>\<open>freqs\<close> is undefined, and the ramp rejects an
  undefined value.
\<close>

fun retune ::
  "real list option \<Rightarrow> real \<Rightarrow> nat \<Rightarrow> Automation list list \<Rightarrow> error + Automation list list" where
  "retune freqs t i [] = Inr []"
| "retune freqs t i (osc # rest) =
     (case freqs of
        None \<Rightarrow> Inl TypeError
      | Some fs \<Rightarrow>
          if i < length fs then
            (case retune freqs t (i + 1) rest of
               Inl e \<Rightarrow> Inl e
             | Inr rest' \<Rightarrow> Inr ((osc @ [LinearRampToValueAtTime (fs ! i) t]) # rest'))
          else Inl TypeError)"

definition soundSetMode ::
  "(nat \<Rightarrow> real) \<Rightarrow> int \<Rightarrow> nat \<times> AmbientSound \<Rightarrow> error + nat \<times> AmbientSound" where
  "soundSetMode rnd index ka =
     (let k = fst ka; a = (snd ka)\<lparr>soundMode := index\<rparr>
      in case ctx a of
           None \<Rightarrow> Inr (k, a)
         | Some c \<Rightarrow>
             if \<not> enabled a then Inr (k, a)
             else
               (case retune (MODE_FREQS_at index) (currentTime c + 3) 0 (drones a) of
                  Inl e \<Rightarrow> Inl e
                | Inr ds \<Rightarrow> Inr (triggerSweep rnd (k, a\<lparr>drones := ds\<rparr>))))"

text \<open>\<^verbatim>\<open>new AmbientSound()\<close>: no audio graph yet, not enabled.\<close>

definition newAmbientSound :: AmbientSound where
  "newAmbientSound = \<lparr> ctx = None, drones = [], cues = [], soundMode = 4, enabled = False \<rparr>"

subsection \<open>The host and the state of the page\<close>

text \<open>
  What the program takes from its environment: the particle count \<^verbatim>\<open>COUNT\<close> (fixed at
  load time from the device), the results of \<^verbatim>\<open>Math.random()\<close> in call order, and the
  library conversion \<^verbatim>\<open>THREE.Color.setHSL\<close>, which yields the red, green and blue
  components of the colour.
\<close>

record env =
  COUNT :: nat
  random :: "nat \<Rightarrow> real"
  setHSL :: "real \<Rightarrow> real \<Rightarrow> real \<Rightarrow> vec3"

text \<open>The two values \<^verbatim>\<open>COUNT\<close> takes: on a mobile device, and otherwise.\<close>

definition COUNT_for :: "bool \<Rightarrow> nat" where
  "COUNT_for isMobile = (if isMobile then 30000 else 75000)"

record World =
  currentMode :: int
  targetMode :: int
  modeBlend :: real
  mouseDown :: bool
  mouseActive :: bool
  repelling :: bool
  colorOverride :: "real option"
  mouseWorld :: vec3
  audio :: AmbientSound
  bloomStrength :: real
  positions :: "real list"
  velocities :: "real list"
  colors :: "real list"
  sizes :: "real list"
  alphas :: "real list"
  targetColors :: "real list"
  targetSizes :: "real list"
  tmpColor :: vec3
  draws :: nat

definition getHueRange :: "World \<Rightarrow> Mode \<Rightarrow> real \<times> real" where
  "getHueRange s m =
     (case colorOverride s of
        None \<Rightarrow> hueRange m
      | Some h \<Rightarrow> (h - 0.06, h + 0.06))"

definition getSatRange :: "World \<Rightarrow> Mode \<Rightarrow> real \<times> real" where
  "getSatRange s m =
     (case colorOverride s of
        None \<Rightarrow> satRange m
      | Some h \<Rightarrow> (max (fst (satRange m)) 0.5, max (snd (satRange m)) 0.9))"

text \<open>Writing the three components of particle \<open>i\<close> into a buffer of triples.\<close>

definition store3 :: "real list \<Rightarrow> nat \<Rightarrow> vec3 \<Rightarrow> real list" where
  "store3 xs i3 v = (case v of (a, b, c) \<Rightarrow> xs[i3 := a, i3 + 1 := b, i3 + 2 := c])"

definition load3 :: "real list \<Rightarrow> nat \<Rightarrow> vec3" where
  "load3 xs i3 = (xs ! i3, xs ! (i3 + 1), xs ! (i3 + 2))"

text \<open>
  The sampling shared by \<^verbatim>\<open>randomizeParticle\<close> and \<^verbatim>\<open>precomputeTargets\<close>, reading the
  random sequence from position \<open>k\<close>: hue, saturation and lightness
  (\<^verbatim>\<open>lo + Math.random() * (hi - lo)\<close> in the three ranges), and the size.
\<close>

definition sampleHSL :: "env \<Rightarrow> Mode \<Rightarrow> real \<times> real \<Rightarrow> real \<times> real \<Rightarrow> nat \<Rightarrow> vec3" where
  "sampleHSL E m hr sr k =
     (let hue = fst hr + random E k * (snd hr - fst hr);
          sat = fst sr + random E (k + 1) * (snd sr - fst sr);
          light = fst (lightRange m)
                    + random E (k + 2) * (snd (lightRange m) - fst (lightRange m))
      in (hue, sat, light))"

definition sampleSize :: "env \<Rightarrow> Mode \<Rightarrow> nat \<Rightarrow> real" where
  "sampleSize E m k = fst (sizeRange m) + random E k * (snd (sizeRange m) - fst (sizeRange m))"

text \<open>\<^verbatim>\<open>tmpColor.setHSL(hue, sat, light)\<close>, then reading \<^verbatim>\<open>tmpColor.r\<close>, \<^verbatim>\<open>.g\<close>, \<^verbatim>\<open>.b\<close>.\<close>

definition toRGB :: "env \<Rightarrow> vec3 \<Rightarrow> vec3" where
  "toRGB E hsl = (case hsl of (hue, sat, light) \<Rightarrow> setHSL E hue sat light)"



subsection \<open>Transition targets and mode changes\<close>

definition precomputeTarget :: "env \<Rightarrow> Mode \<Rightarrow> real \<times> real \<Rightarrow> nat \<Rightarrow> World \<Rightarrow> World" where
  "precomputeTarget E m hr i s =
     (let i3 = i * 3; k = draws s;
          sr = getSatRange s m;
          rgb = toRGB E (sampleHSL E m hr sr k)
      in s\<lparr> targetColors := store3 (targetColors s) i3 rgb,
            targetSizes := (targetSizes s)[i := sampleSize E m (k + 3)],
            tmpColor := rgb,
            draws := k + 4 \<rparr>)"

definition precomputeTargets :: "env \<Rightarrow> Mode \<Rightarrow> World \<Rightarrow> World" where
  "precomputeTargets E m s =
     (let hr = getHueRange s m in fold (precomputeTarget E m hr) [0..<COUNT E] s)"

text \<open>
  \<^verbatim>\<open>setMode(index)\<close>. The page's buttons and description (\<^verbatim>\<open>updateModeUI\<close>) are not
  part of the state.
\<close>

definition setMode :: "env \<Rightarrow> int \<Rightarrow> World \<Rightarrow> error + World" where
  "setMode E index s =
     (if index < 0 \<or> index \<ge> int (length MODES) then Inr s
      else if index = currentMode s \<and> modeBlend s \<ge> 1 then Inr s
      else
        (let s1 = s\<lparr>targetMode := index, modeBlend := 0\<rparr>
         in case MODES_at index of
              None \<Rightarrow> Inl TypeError
            | Some m \<Rightarrow>
                (let s2 = precomputeTargets E m s1
                 in case soundSetMode (random E) index (draws s2, audio s2) of
                      Inl e \<Rightarrow> Inl e
                    | Inr ka \<Rightarrow> Inr (s2\<lparr>audio := snd ka, draws := fst ka\<rparr>))))"

text \<open>Recompute target colours with the current mode and colour override.\<close>

definition triggerColorTransition :: "env \<Rightarrow> World \<Rightarrow> error + World" where
  "triggerColorTransition E s =
     (case MODES_at (if modeBlend s \<ge> 1 then currentMode s else targetMode s) of
        None \<Rightarrow> Inl TypeError
      | Some m \<Rightarrow>
          (let s1 = precomputeTargets E m s;
               s2 = (if modeBlend s1 \<ge> 1
                     then s1\<lparr>modeBlend := 0.5, targetMode := currentMode s1\<rparr> else s1);
               ka = triggerColorChange (random E) (draws s2, audio s2)
           in Inr (s2\<lparr>audio := snd ka, draws := fst ka\<rparr>)))"

text \<open>
  A click on a swatch or an input of the colour picker: the override becomes \<open>h\<close>
  (\<open>None\<close> for the swatch \<^verbatim>\<open>auto\<close>), then the colour transition is triggered.
\<close>

definition pickColor :: "env \<Rightarrow> real option \<Rightarrow> World \<Rightarrow> error + World" where
  "pickColor E h s = triggerColorTransition E (s\<lparr>colorOverride := h\<rparr>)"

subsection \<open>Rounding\<close>

text \<open>
  The program's numbers are binary64, and the particle buffers are \<^verbatim>\<open>Float32Array\<close>s: a
  number written to one is rounded to binary32. \<open>roundTo p\<close> rounds a real to the nearest
  number with \<open>p + 1\<close> significant bits, ties to even, for the normal range (no overflow,
  underflow or NaN); \<open>toDouble\<close> is the rounding of an arithmetic result, \<open>toSingle\<close>
  the rounding of a store into a buffer (\<^verbatim>\<open>Math.fround\<close>).

  The blend fraction is the one number whose rounding decides what the program does, so
  its accumulation is modelled as the program computes it, with \<open>toDouble\<close>. The other
  arithmetic, and the buffers, are modelled over the reals.
\<close>

definition roundHalfEven :: "real \<Rightarrow> int" where
  "roundHalfEven y =
     (let f = \<lfloor>y\<rfloor>
      in if y - of_int f < 1 / 2 then f
         else if 1 / 2 < y - of_int f then f + 1
         else if even f then f else f + 1)"

definition roundTo :: "nat \<Rightarrow> real \<Rightarrow> real" where
  "roundTo p x =
     (if x = 0 then 0
      else (let e = \<lfloor>log 2 \<bar>x\<bar>\<rfloor>; u = 2 powr of_int (e - int p)
            in of_int (roundHalfEven (x / u)) * u))"

definition toDouble :: "real \<Rightarrow> real" where
  "toDouble x = roundTo 52 x"

definition toSingle :: "real \<Rightarrow> real" where
  "toSingle x = roundTo 23 x"

subsection \<open>The tick\<close>

definition getActiveMode :: "World \<Rightarrow> error + Mode" where
  "getActiveMode s =
     (if modeBlend s \<ge> 1 then
        (case MODES_at (currentMode s) of None \<Rightarrow> Inl TypeError | Some m \<Rightarrow> Inr m)
      else
        (case MODES_at (currentMode s) of
           None \<Rightarrow> Inl TypeError
         | Some a \<Rightarrow>
             (case MODES_at (targetMode s) of
                None \<Rightarrow> Inl TypeError
              | Some b \<Rightarrow>
                  (let t = modeBlend s
                   in Inr \<lparr> name = name b, desc = desc b, hueRange = hueRange b,
                        satRange = satRange b, lightRange = lightRange b,
                        damping = lerp (damping a) (damping b) t,
                        mouseForce = lerp (mouseForce a) (mouseForce b) t,
                        drift = lerp (drift a) (drift b) t,
                        centerPull = lerp (centerPull a) (centerPull b) t,
                        equilibrium = lerp (equilibrium a) (equilibrium b) t,
                        swirl = lerp (swirl a) (swirl b) t,
                        sizeRange = sizeRange b,
                        bloom = lerp (bloom a) (bloom b) t,
                        depthRange = lerp (depthRange a) (depthRange b) t \<rparr>))))"

definition mouseStrength :: "Mode \<Rightarrow> World \<Rightarrow> real" where
  "mouseStrength m s =
     (let forceDir = (if repelling s then - 2.0 else 1.0)
      in if mouseDown s then mouseForce m * forceDir
         else if mouseActive s then mouseForce m * 0.25
         else 0)"

text \<open>The three drift draws of one particle, from position \<open>k\<close> of the random sequence.\<close>

definition drawn3 :: "env \<Rightarrow> nat \<Rightarrow> vec3" where
  "drawn3 E k = (random E k, random E (k + 1), random E (k + 2))"

definition updateParticle :: "env \<Rightarrow> Mode \<Rightarrow> real \<Rightarrow> real \<Rightarrow> nat \<Rightarrow> World \<Rightarrow> World" where
  "updateParticle E m mf dt i s =
     (let i3 = i * 3; k = draws s;
          pv = stepParticle m mf (mouseWorld s) dt (drawn3 E k)
                 (load3 (positions s) i3, load3 (velocities s) i3)
      in s\<lparr> positions := store3 (positions s) i3 (fst pv),
            velocities := store3 (velocities s) i3 (snd pv),
            draws := k + 3 \<rparr>)"

text \<open>
  Smooth colour and size transition: \<^verbatim>\<open>xs[i] += (ts[i] - xs[i]) * rate\<close>. Before it,
  \<^verbatim>\<open>modeBlend = Math.min(modeBlend + dt * 0.5, 1)\<close>: halving \<open>dt\<close> is exact, the sum is
  rounded.
\<close>

definition approach :: "real \<Rightarrow> real list \<Rightarrow> nat \<Rightarrow> real list \<Rightarrow> real list" where
  "approach rate ts i xs = xs[i := xs ! i + (ts ! i - xs ! i) * rate]"

definition blendStep :: "env \<Rightarrow> real \<Rightarrow> World \<Rightarrow> World" where
  "blendStep E dt s =
     (if modeBlend s < 1 then
        (let b = min (toDouble (modeBlend s + dt * 0.5)) 1;
             s1 = s\<lparr>modeBlend := b\<rparr>;
             s2 = (if b \<ge> 1 then s1\<lparr>currentMode := targetMode s1\<rparr> else s1);
             rate = dt * 2.5
         in s2\<lparr> colors := fold (approach rate (targetColors s2)) [0..<COUNT E * 3] (colors s2),
                sizes := fold (approach rate (targetSizes s2)) [0..<COUNT E] (sizes s2) \<rparr>)
      else s)"

definition updateParticles :: "env \<Rightarrow> real \<Rightarrow> World \<Rightarrow> error + World" where
  "updateParticles E dt s =
     (case getActiveMode s of
        Inl e \<Rightarrow> Inl e
      | Inr m \<Rightarrow>
          (let s1 = s\<lparr>bloomStrength := bloom m\<rparr>;
               mf = mouseStrength m s1;
               s2 = fold (updateParticle E m mf dt) [0..<COUNT E] s1
           in Inr (blendStep E dt s2)))"

subsection \<open>Click burst\<close>

definition burstParticle :: "env \<Rightarrow> real \<Rightarrow> real \<Rightarrow> real \<Rightarrow> real \<Rightarrow> nat \<Rightarrow> World \<Rightarrow> World" where
  "burstParticle E wx wy force radiusSq i s =
     (let i3 = i * 3;
          dx = positions s ! i3 - wx;
          dy = positions s ! (i3 + 1) - wy;
          distSq = dx * dx + dy * dy
      in if distSq < radiusSq then
           (let strength = (1 - distSq / radiusSq) * force;
                dist = sqrt distSq + 0.5;
                vs = velocities s
            in s\<lparr> velocities :=
                    vs[i3 := vs ! i3 + (dx / dist) * strength,
                       i3 + 1 := vs ! (i3 + 1) + (dy / dist) * strength,
                       i3 + 2 := vs ! (i3 + 2)
                                  + (random E (draws s) - 0.5) * \<bar>strength\<bar> * 0.3],
                  draws := draws s + 1 \<rparr>)
         else s)"

definition burstAt :: "env \<Rightarrow> real \<Rightarrow> real \<Rightarrow> bool \<Rightarrow> World \<Rightarrow> World" where
  "burstAt E wx wy push s =
     (let force = (if push then - 3 else 3);
          radius = 12;
          radiusSq = radius * radius;
          s1 = fold (burstParticle E wx wy force radiusSq) [0..<COUNT E] s;
          ka = triggerBurst (random E) (draws s1, audio s1)
      in s1\<lparr>audio := snd ka, draws := fst ka\<rparr>)"

subsection \<open>Runs of the page\<close>

text \<open>
  The buffers have the sizes they are allocated with, the mode indices point into the
  table, the blend fraction is not negative, and the engine has no more than the three
  drone oscillators that building the audio graph creates.
\<close>

definition wf_World :: "env \<Rightarrow> World \<Rightarrow> bool" where
  "wf_World E s \<longleftrightarrow>
     length (positions s) = COUNT E * 3 \<and> length (velocities s) = COUNT E * 3 \<and>
     length (colors s) = COUNT E * 3 \<and> length (targetColors s) = COUNT E * 3 \<and>
     length (sizes s) = COUNT E \<and> length (targetSizes s) = COUNT E \<and>
     length (alphas s) = COUNT E \<and>
     0 \<le> currentMode s \<and> currentMode s < 5 \<and> 0 \<le> targetMode s \<and> targetMode s < 5 \<and>
     0 \<le> modeBlend s \<and> length (drones (audio s)) \<le> 3"


text \<open>\<open>n\<close> frames in a row at a constant \<open>dt\<close>, nothing in between.\<close>

fun ticks :: "env \<Rightarrow> real \<Rightarrow> nat \<Rightarrow> World \<Rightarrow> error + World" where
  "ticks E dt 0 s = Inr s"
| "ticks E dt (Suc n) s =
     (case ticks E dt n s of Inl e \<Rightarrow> Inl e | Inr s' \<Rightarrow> updateParticles E dt s')"

text \<open>The blend fraction after \<open>n\<close> frames at a constant \<open>dt\<close>, started at 0.\<close>

fun blendAfter :: "real \<Rightarrow> nat \<Rightarrow> real" where
  "blendAfter dt 0 = 0"
| "blendAfter dt (Suc n) =
     (if blendAfter dt n < 1 then min (toDouble (blendAfter dt n + dt * 0.5)) 1
      else blendAfter dt n)"

text \<open>The magnitude of a vector.\<close>

definition magnitude :: "vec3 \<Rightarrow> real" where
  "magnitude v = (case v of (vx, vy, vz) \<Rightarrow> sqrt (vx * vx + vy * vy + vz * vz))"


text \<open>
  The number of particles below \<open>i\<close> that pass the distance test of \<^verbatim>\<open>burstAt\<close>: each of
  them takes one random draw.
\<close>

definition burstHits :: "real \<Rightarrow> real \<Rightarrow> real \<Rightarrow> real list \<Rightarrow> nat \<Rightarrow> nat" where
  "burstHits wx wy radiusSq ps i =
     length (filter (\<lambda>j. (ps ! (j * 3) - wx) * (ps ! (j * 3) - wx)
                          + (ps ! (j * 3 + 1) - wy) * (ps ! (j * 3 + 1) - wy) < radiusSq)
               [0..<i])"

subsection \<open>Small instances\<close>

text \<open>
  A host with \<open>n\<close> particles whose random draws are all \<open>1/2\<close> (no drift, no jitter) and
  a page at rest in mode void with given positions and velocities.
\<close>

definition calmEnv :: "nat \<Rightarrow> env" where
  "calmEnv n = \<lparr> COUNT = n, random = (\<lambda>k. 1 / 2), setHSL = (\<lambda>h s l. (h, s, l)) \<rparr>"

definition restWorld :: "real list \<Rightarrow> real list \<Rightarrow> World" where
  "restWorld ps vs =
     \<lparr> currentMode = 4, targetMode = 4, modeBlend = 1,
       mouseDown = False, mouseActive = False, repelling = False,
       colorOverride = None, mouseWorld = (0, 0, 0), audio = newAmbientSound,
       bloomStrength = 2.8, positions = ps, velocities = vs,
       colors = map (\<lambda>x. 0) ps, sizes = replicate (length ps div 3) 1,
       alphas = replicate (length ps div 3) 1, targetColors = map (\<lambda>x. 0) ps,
       targetSizes = replicate (length ps div 3) 1, tmpColor = (1, 1, 1), draws = 0 \<rparr>"


text \<open>A sound engine whose graph is built but which is switched off.\<close>

definition mutedSound :: AmbientSound where
  "mutedSound =
     \<lparr> ctx = Some \<lparr> currentTime = 0, sampleRate = 48000 \<rparr>, drones = [[], [], []],
       cues = [], soundMode = 4, enabled = False \<rparr>"

text \<open>The same engine switched on, and a page with it.\<close>

definition liveSound :: AmbientSound where
  "liveSound = mutedSound\<lparr>enabled := True\<rparr>"

definition clickWorld :: World where
  "clickWorld = (restWorld [6, 0, 5, 30, 0, 0] [0, 0, 0, 0, 0, 0])\<lparr>audio := liveSound\<rparr>"


definition rampEnv :: "nat \<Rightarrow> env" where
  "rampEnv n = \<lparr> COUNT = n, random = (\<lambda>k. 1 / (real k + 2)), setHSL = (\<lambda>h s l. (h, s, l)) \<rparr>"

section \<open>Facts about the model\<close>

subsection \<open>Rounding\<close>

lemma roundHalfEven_cases:
  "roundHalfEven y = \<lfloor>y\<rfloor> \<or> roundHalfEven y = \<lfloor>y\<rfloor> + 1"
  by (simp add: roundHalfEven_def Let_def)

lemma roundHalfEven_lower: "y - 1 / 2 \<le> of_int (roundHalfEven y)"
  unfolding roundHalfEven_def Let_def by (auto; linarith)

lemma roundHalfEven_upper: "of_int (roundHalfEven y) \<le> y + 1 / 2"
  unfolding roundHalfEven_def Let_def by (auto; linarith)

lemma roundHalfEven_of_int [simp]: "roundHalfEven (of_int n) = n"
  by (simp add: roundHalfEven_def)

lemma roundHalfEven_numeral [simp]: "roundHalfEven (numeral k) = numeral k"
  using roundHalfEven_of_int [of "numeral k"] by simp

lemma roundHalfEven_power [simp]:
  "roundHalfEven (2 ^ p) = 2 ^ p" "roundHalfEven (2 * 2 ^ p) = 2 * 2 ^ p"
  using roundHalfEven_of_int [of "2 ^ p"] roundHalfEven_of_int [of "2 * 2 ^ p"] by simp_all

lemma roundHalfEven_mono:
  assumes "x \<le> y"
  shows "roundHalfEven x \<le> roundHalfEven y"
proof (cases "\<lfloor>x\<rfloor> = \<lfloor>y\<rfloor>")
  case True
  then show ?thesis
    using assms unfolding roundHalfEven_def Let_def by (auto; linarith)
next
  case False
  then have "\<lfloor>x\<rfloor> + 1 \<le> \<lfloor>y\<rfloor>" using floor_mono [OF assms] by linarith
  moreover have "roundHalfEven x \<le> \<lfloor>x\<rfloor> + 1" using roundHalfEven_cases [of x] by linarith
  moreover have "\<lfloor>y\<rfloor> \<le> roundHalfEven y" using roundHalfEven_cases [of y] by linarith
  ultimately show ?thesis by linarith
qed


lemma binade_bounds:
  assumes "0 < x"
  shows "2 powr of_int \<lfloor>log 2 x\<rfloor> \<le> x" "x < 2 powr of_int (\<lfloor>log 2 x\<rfloor> + 1)"
proof -
  have "of_int \<lfloor>log 2 x\<rfloor> \<le> log 2 x" by simp
  then show "2 powr of_int \<lfloor>log 2 x\<rfloor> \<le> x"
    using assms by (simp add: powr_le_iff)
  have "log 2 x < of_int (\<lfloor>log 2 x\<rfloor> + 1)" by linarith
  then show "x < 2 powr of_int (\<lfloor>log 2 x\<rfloor> + 1)"
    using assms by (simp add: less_powr_iff)
qed

lemma binade_unique:
  assumes "0 < x" "2 powr of_int e \<le> x" "x < 2 powr of_int (e + 1)"
  shows "\<lfloor>log 2 x\<rfloor> = e"
proof -
  have "of_int e \<le> log 2 x" using assms(1,2) by (simp add: powr_le_iff)
  moreover have "log 2 x < of_int e + 1" using assms(1,3) by (simp add: less_powr_iff)
  ultimately show ?thesis by linarith
qed

lemma two_powr_split: "2 powr of_int e = 2 powr of_int (e - int p) * (2::real) ^ p"
proof -
  have "(2::real) powr of_int e = 2 powr (of_int (e - int p) + real p)" by simp
  also have "\<dots> = 2 powr of_int (e - int p) * 2 powr real p" by (simp only: powr_add)
  also have "(2::real) powr real p = 2 ^ p" by (simp add: powr_realpow)
  finally show ?thesis .
qed

lemma two_powr_Suc: "2 powr of_int (e + 1) = 2 * (2::real) powr of_int e"
proof -
  have "(2::real) powr of_int (e + 1) = 2 powr (of_int e + 1)" by simp
  also have "\<dots> = 2 powr of_int e * 2 powr 1" by (simp only: powr_add)
  finally show ?thesis by simp
qed

text \<open>
  The shape of a rounded positive number: an integer of \<open>p + 1\<close> bits times the unit.
\<close>

lemma roundTo_pos:
  fixes x :: real and p :: nat
  assumes "0 < x"
  defines "e \<equiv> \<lfloor>log 2 x\<rfloor>"
  defines "u \<equiv> 2 powr of_int (e - int p)"
  shows "roundTo p x = of_int (roundHalfEven (x / u)) * u"
    and "0 < u" and "2 ^ p \<le> x / u" and "x / u < 2 * 2 ^ p"
    and "2 ^ p \<le> roundHalfEven (x / u)" and "roundHalfEven (x / u) \<le> 2 * 2 ^ p"
proof -
  show "roundTo p x = of_int (roundHalfEven (x / u)) * u"
    using assms(1) by (simp add: roundTo_def Let_def e_def u_def)
  show u: "0 < u" by (simp add: u_def)
  have lo: "2 powr of_int e \<le> x" and hi: "x < 2 powr of_int (e + 1)"
    using binade_bounds [OF assms(1)] by (simp_all add: e_def)
  have "u * 2 ^ p \<le> x" using lo two_powr_split [of e p] by (simp add: u_def)
  then show a: "2 ^ p \<le> x / u" using u by (simp add: pos_le_divide_eq mult.commute)
  have "x < u * (2 * 2 ^ p)"
    using hi two_powr_Suc [of e] two_powr_split [of e p] by (simp add: u_def)
  then show b: "x / u < 2 * 2 ^ p" using u by (simp add: pos_divide_less_eq mult.commute)
  have "roundHalfEven (of_int (2 ^ p)) \<le> roundHalfEven (x / u)"
    using a by (intro roundHalfEven_mono) simp
  then show "2 ^ p \<le> roundHalfEven (x / u)" by simp
  have "roundHalfEven (x / u) \<le> roundHalfEven (of_int (2 * 2 ^ p))"
    using b by (intro roundHalfEven_mono) simp
  then show "roundHalfEven (x / u) \<le> 2 * 2 ^ p" by simp
qed

lemma roundTo_at:
  assumes "0 < x" "2 powr of_int e \<le> x" "x < 2 powr of_int (e + 1)"
  shows "roundTo p x
           = of_int (roundHalfEven (x / 2 powr of_int (e - int p))) * 2 powr of_int (e - int p)"
  using roundTo_pos(1) [OF assms(1)] binade_unique [OF assms] by simp

lemma roundTo_zero [simp]: "roundTo p 0 = 0"
  by (simp add: roundTo_def)

lemma roundTo_nonneg: "0 \<le> x \<Longrightarrow> 0 \<le> roundTo p x"
proof (cases "x = 0")
  case True
  then show ?thesis by simp
next
  case False
  assume "0 \<le> x"
  then have x: "0 < x" using False by simp
  have "(0::int) \<le> 2 ^ p" by simp
  then have "0 \<le> roundHalfEven (x / 2 powr of_int (\<lfloor>log 2 x\<rfloor> - int p))"
    using roundTo_pos(5) [OF x, of p] by (rule order_trans)
  then show ?thesis
    using roundTo_pos(1,2) [OF x, of p] by simp
qed


lemma roundTo_range:
  assumes "0 < x"
  shows "2 powr of_int \<lfloor>log 2 x\<rfloor> \<le> roundTo p x"
    and "roundTo p x \<le> 2 powr of_int (\<lfloor>log 2 x\<rfloor> + 1)"
proof -
  let ?e = "\<lfloor>log 2 x\<rfloor>"
  let ?u = "2 powr of_int (?e - int p) :: real"
  let ?n = "roundHalfEven (x / ?u)"
  note f = roundTo_pos [OF assms, of p]
  have "real_of_int (2 ^ p) \<le> of_int ?n" using f(5) by (simp only: of_int_le_iff)
  then have "(2::real) ^ p \<le> of_int ?n" by simp
  then have "?u * 2 ^ p \<le> of_int ?n * ?u" using f(2) by (simp add: mult.commute)
  then show "2 powr of_int ?e \<le> roundTo p x"
    using f(1) two_powr_split [of ?e p] by simp
  have "of_int ?n \<le> real_of_int (2 * 2 ^ p)" using f(6) by (simp only: of_int_le_iff)
  then have "of_int ?n \<le> (2::real) * 2 ^ p" by simp
  then have "of_int ?n * ?u \<le> (2 * 2 ^ p) * ?u" using f(2) by (intro mult_right_mono) auto
  then show "roundTo p x \<le> 2 powr of_int (?e + 1)"
    using f(1) two_powr_Suc [of ?e] two_powr_split [of ?e p] by simp
qed

lemma roundTo_mono:
  assumes "0 \<le> x" "x \<le> y"
  shows "roundTo p x \<le> roundTo p y"
proof (cases "x = 0")
  case True
  then show ?thesis using assms roundTo_nonneg [of y p] by simp
next
  case False
  then have x: "0 < x" and y: "0 < y" using assms by simp_all
  let ?ex = "\<lfloor>log 2 x\<rfloor>" and ?ey = "\<lfloor>log 2 y\<rfloor>"
  have le: "?ex \<le> ?ey" using x assms(2) by (intro floor_mono) simp
  show ?thesis
  proof (cases "?ex = ?ey")
    case True
    let ?u = "2 powr of_int (?ex - int p) :: real"
    have "x / ?u \<le> y / ?u" using assms(2) by (simp add: divide_right_mono)
    then have "roundHalfEven (x / ?u) \<le> roundHalfEven (y / ?u)" by (rule roundHalfEven_mono)
    then have "of_int (roundHalfEven (x / ?u)) * ?u \<le> of_int (roundHalfEven (y / ?u)) * ?u"
      by (intro mult_right_mono) simp_all
    then show ?thesis
      using roundTo_pos(1) [OF x, of p] roundTo_pos(1) [OF y, of p] True by simp
  next
    case False
    then have "?ex + 1 \<le> ?ey" using le by simp
    then have "(2::real) powr of_int (?ex + 1) \<le> 2 powr of_int ?ey" by simp
    then show ?thesis
      using roundTo_range(2) [OF x, of p] roundTo_range(1) [OF y, of p] by linarith
  qed
qed

lemma roundTo_idem:
  assumes "0 \<le> x"
  shows "roundTo p (roundTo p x) = roundTo p x"
proof (cases "x = 0")
  case True
  then show ?thesis by simp
next
  case False
  then have x: "0 < x" using assms by simp
  let ?e = "\<lfloor>log 2 x\<rfloor>"
  let ?u = "2 powr of_int (?e - int p) :: real"
  let ?n = "roundHalfEven (x / ?u)"
  let ?r = "roundTo p x"
  note f = roundTo_pos [OF x, of p]
  have r: "?r = of_int ?n * ?u" by (rule f(1))
  have lo: "2 powr of_int ?e \<le> ?r" by (rule roundTo_range(1) [OF x])
  have pos: "0 < ?r" using lo by (smt (verit) powr_gt_zero)
  show ?thesis
  proof (cases "?n = 2 * 2 ^ p")
    case True
    have top: "?r = 2 powr of_int (?e + 1)"
      using r True two_powr_Suc [of ?e] two_powr_split [of ?e p] by simp
    have "?r < 2 powr of_int (?e + 1 + 1)"
      unfolding top two_powr_Suc [of "?e + 1"] by simp
    from roundTo_at [OF pos _ this, of p] top
    have "roundTo p ?r
            = of_int (roundHalfEven (?r / 2 powr of_int (?e + 1 - int p)))
              * 2 powr of_int (?e + 1 - int p)"
      by simp
    moreover have "?r = 2 powr of_int (?e + 1 - int p) * 2 ^ p"
      unfolding top by (rule two_powr_split)
    then have "?r / 2 powr of_int (?e + 1 - int p) = of_int (2 ^ p)" by simp
    ultimately have "roundTo p ?r = of_int (2 ^ p) * 2 powr of_int (?e + 1 - int p)"
      by (simp only: roundHalfEven_of_int)
    also have "\<dots> = ?r"
      unfolding top using two_powr_split [of "?e + 1" p] by simp
    finally show ?thesis .
  next
    case False
    then have "?n < 2 * 2 ^ p" using f(6) by simp
    then have "of_int ?n < real_of_int (2 * 2 ^ p)" by (simp only: of_int_less_iff)
    then have "of_int ?n < (2::real) * 2 ^ p" by simp
    then have "of_int ?n * ?u < (2 * 2 ^ p) * ?u" using f(2) by (intro mult_strict_right_mono)
    then have hi: "?r < 2 powr of_int (?e + 1)"
      using r two_powr_Suc [of ?e] two_powr_split [of ?e p] by simp
    have "?r / ?u = of_int ?n" using r f(2) by simp
    then have "roundHalfEven (?r / ?u) = ?n" by (simp only: roundHalfEven_of_int)
    then show ?thesis using roundTo_at [OF pos lo hi, of p] r by simp
  qed
qed

lemma roundTo_lower:
  assumes "0 \<le> x"
  shows "x * (1 - 1 / (2 * 2 ^ p)) \<le> roundTo p x"
proof (cases "x = 0")
  case True
  then show ?thesis by simp
next
  case False
  then have x: "0 < x" using assms by simp
  let ?u = "2 powr of_int (\<lfloor>log 2 x\<rfloor> - int p) :: real"
  note f = roundTo_pos [OF x, of p]
  have "x / ?u - 1 / 2 \<le> of_int (roundHalfEven (x / ?u))" by (rule roundHalfEven_lower)
  then have "(x / ?u - 1 / 2) * ?u \<le> of_int (roundHalfEven (x / ?u)) * ?u"
    using f(2) by (intro mult_right_mono) simp_all
  then have a: "x - ?u / 2 \<le> roundTo p x" using f(1,2) by (simp add: algebra_simps)
  have "?u * 2 ^ p \<le> x" using f(2,3) by (simp add: pos_le_divide_eq mult.commute)
  then have "?u / 2 \<le> x / (2 * 2 ^ p)" by (simp add: field_simps)
  then show ?thesis using a by (simp add: algebra_simps)
qed

lemma roundTo_scaled:
  assumes "2 ^ p \<le> x * 2 ^ q" "x * 2 ^ q < 2 * 2 ^ p"
  shows "roundTo p x = of_int (roundHalfEven (x * 2 ^ q)) / 2 ^ q"
proof -
  have "0 < x * 2 ^ q" using assms(1) by (rule less_le_trans [rotated]) simp
  then have x: "0 < x" by (simp add: zero_less_mult_iff)
  let ?e = "int p - int q"
  have u: "(2::real) powr of_int (?e - int p) = 1 / 2 ^ q"
  proof -
    have "(2::real) powr of_int (?e - int p) = 2 powr (- real q)" by simp
    also have "\<dots> = 1 / 2 powr real q" by (simp add: powr_minus_divide)
    also have "\<dots> = 1 / 2 ^ q" by (simp add: powr_realpow)
    finally show ?thesis .
  qed
  have e: "(2::real) powr of_int ?e = 2 ^ p / 2 ^ q"
    using two_powr_split [of ?e p] u by simp
  have lo: "2 powr of_int ?e \<le> x" using assms(1) unfolding e by (simp add: pos_divide_le_eq)
  have hi: "x < 2 powr of_int (?e + 1)"
    using assms(2) unfolding two_powr_Suc [of ?e] e by (simp add: pos_less_divide_eq)
  show ?thesis using roundTo_at [OF x lo hi, of p] unfolding u by simp
qed



text \<open>The two formats.\<close>

lemma toDouble_zero [simp]: "toDouble 0 = 0"
  by (simp add: toDouble_def)

lemma toDouble_nonneg: "0 \<le> x \<Longrightarrow> 0 \<le> toDouble x"
  unfolding toDouble_def by (rule roundTo_nonneg)

lemma toDouble_mono: "0 \<le> x \<Longrightarrow> x \<le> y \<Longrightarrow> toDouble x \<le> toDouble y"
  unfolding toDouble_def by (rule roundTo_mono)

lemma toDouble_idem: "0 \<le> x \<Longrightarrow> toDouble (toDouble x) = toDouble x"
  unfolding toDouble_def by (rule roundTo_idem)

lemma toDouble_lower: "0 \<le> x \<Longrightarrow> x * (1 - 1 / 2 ^ 53) \<le> toDouble x"
  using roundTo_lower [of x 52] by (simp add: toDouble_def)

lemma toDouble_scaled:
  assumes "2 ^ 52 \<le> x * 2 ^ q" "x * 2 ^ q < 2 ^ 53"
  shows "toDouble x = of_int (roundHalfEven (x * 2 ^ q)) / 2 ^ q"
  unfolding toDouble_def using assms by (intro roundTo_scaled) simp_all

lemma toDouble_one [simp]: "toDouble 1 = 1"
  using toDouble_scaled [of 1 52] by simp

lemma toSingle_scaled:
  assumes "2 ^ 23 \<le> x * 2 ^ q" "x * 2 ^ q < 2 ^ 24"
  shows "toSingle x = of_int (roundHalfEven (x * 2 ^ q)) / 2 ^ q"
  unfolding toSingle_def using assms by (intro roundTo_scaled) simp_all



subsection \<open>Buffers and loops\<close>

lemma length_store3 [simp]: "length (store3 xs i v) = length xs"
  by (cases v) (simp add: store3_def)

lemma load3_store3_same: "i + 2 < length xs \<Longrightarrow> load3 (store3 xs i v) i = v"
  by (cases v) (simp add: store3_def load3_def)

lemma nth_store3_other: "j < i \<or> i + 2 < j \<Longrightarrow> store3 xs i v ! j = xs ! j"
  by (cases v) (auto simp add: store3_def)

lemma load3_store3_other:
  "j + 2 < i \<or> i + 2 < j \<Longrightarrow> load3 (store3 xs i v) j = load3 xs j"
  by (cases v) (auto simp add: store3_def load3_def)

lemma fold_invariant:
  assumes "\<And>x s. P s \<Longrightarrow> P (f x s)" and "P s"
  shows "P (fold f xs s)"
  using assms(2) by (induction xs arbitrary: s) (simp_all add: assms(1))

lemma length_approach_loop [simp]: "length (fold (approach rate ts) is xs) = length xs"
  by (rule fold_invariant [where P = "\<lambda>ys. length ys = length xs"])
     (simp_all add: approach_def)

subsection \<open>One particle\<close>




subsection \<open>The mode table\<close>

lemma MODES_at_cases:
  assumes "MODES_at i = Some m"
  shows "m = nebula \<or> m = solar \<or> m = aurora \<or> m = vortex \<or> m = void"
proof -
  from assms have "nat i < length MODES" and "m = MODES ! nat i"
    by (auto simp add: MODES_at_def split: if_splits)
  then have "m \<in> set MODES" by simp
  then show ?thesis by (simp add: MODES_def)
qed

lemma MODES_at_depth:
  assumes "MODES_at i = Some m"
  shows "12 \<le> depthRange m"
  using MODES_at_cases [OF assms]
  by (auto simp add: nebula_def solar_def aurora_def vortex_def void_def)

lemma MODES_at_valid: "0 \<le> i \<Longrightarrow> i < 5 \<Longrightarrow> \<exists>m. MODES_at i = Some m"
  by (simp add: MODES_at_def MODES_def)

lemma MODE_FREQS_at_valid:
  "0 \<le> i \<Longrightarrow> i < 5 \<Longrightarrow> \<exists>fs. MODE_FREQS_at i = Some fs \<and> length fs = 3"
proof -
  assume "0 \<le> i" "i < 5"
  then have "nat i < 5" by simp
  then have "nat i = 0 \<or> nat i = 1 \<or> nat i = 2 \<or> nat i = 3 \<or> nat i = 4" by arith
  then have "length (MODE_FREQS ! nat i) = 3"
    by (auto simp add: MODE_FREQS_def)
  then show ?thesis using \<open>0 \<le> i\<close> \<open>i < 5\<close> by (simp add: MODE_FREQS_at_def MODE_FREQS_def)
qed

lemma lerp_lower:
  assumes "c \<le> a" "c \<le> b" "0 \<le> t" "t \<le> 1"
  shows "c \<le> lerp a b t"
proof -
  have "lerp a b t = (1 - t) * a + t * b" by (simp add: lerp_def algebra_simps)
  moreover have "(1 - t) * c \<le> (1 - t) * a" using assms by (intro mult_left_mono) auto
  moreover have "t * c \<le> t * b" using assms by (intro mult_left_mono) auto
  moreover have "(1 - t) * c + t * c = c" by (simp add: algebra_simps)
  ultimately show ?thesis by linarith
qed

lemma getActiveMode_depth:
  assumes "0 \<le> currentMode s" "currentMode s < 5" "0 \<le> targetMode s" "targetMode s < 5"
    "0 \<le> modeBlend s"
  shows "\<exists>m. getActiveMode s = Inr m \<and> 12 \<le> depthRange m"
proof -
  obtain a where a: "MODES_at (currentMode s) = Some a"
    using MODES_at_valid assms by blast
  obtain b where b: "MODES_at (targetMode s) = Some b"
    using MODES_at_valid assms by blast
  show ?thesis
  proof (cases "modeBlend s \<ge> 1")
    case True
    then show ?thesis using a MODES_at_depth [OF a] by (simp add: getActiveMode_def)
  next
    case False
    then have "12 \<le> lerp (depthRange a) (depthRange b) (modeBlend s)"
      using MODES_at_depth [OF a] MODES_at_depth [OF b] assms(5) by (intro lerp_lower) auto
    then show ?thesis using False a b by (simp add: getActiveMode_def Let_def)
  qed
qed





subsection \<open>The particle loop of a frame\<close>

lemma updateParticle_loop:
  assumes "n * 3 \<le> length (positions s)" "n * 3 \<le> length (velocities s)"
  shows "\<exists>P V. fold (updateParticle E m mf dt) [0..<n] s
             = s\<lparr>positions := P, velocities := V, draws := draws s + 3 * n\<rparr>
           \<and> length P = length (positions s) \<and> length V = length (velocities s)
           \<and> (\<forall>j \<ge> n * 3. P ! j = positions s ! j \<and> V ! j = velocities s ! j)
           \<and> (\<forall>i < n. (load3 P (i * 3), load3 V (i * 3))
                 = stepParticle m mf (mouseWorld s) dt (drawn3 E (draws s + 3 * i))
                     (load3 (positions s) (i * 3), load3 (velocities s) (i * 3)))"
  using assms
proof (induction n)
  case 0
  show ?case
    by (rule exI [of _ "positions s"], rule exI [of _ "velocities s"]) simp
next
  case (Suc n)
  then obtain P V where
    f: "fold (updateParticle E m mf dt) [0..<n] s
          = s\<lparr>positions := P, velocities := V, draws := draws s + 3 * n\<rparr>"
    and lP: "length P = length (positions s)" and lV: "length V = length (velocities s)"
    and rest: "\<forall>j \<ge> n * 3. P ! j = positions s ! j \<and> V ! j = velocities s ! j"
    and prev: "\<forall>i < n. (load3 P (i * 3), load3 V (i * 3))
                 = stepParticle m mf (mouseWorld s) dt (drawn3 E (draws s + 3 * i))
                     (load3 (positions s) (i * 3), load3 (velocities s) (i * 3))"
    by auto
  define pv where "pv = stepParticle m mf (mouseWorld s) dt (drawn3 E (draws s + 3 * n))
                     (load3 (positions s) (n * 3), load3 (velocities s) (n * 3))"
  have lp: "load3 P (n * 3) = load3 (positions s) (n * 3)"
    and lv: "load3 V (n * 3) = load3 (velocities s) (n * 3)"
    using rest by (simp_all add: load3_def)
  let ?P = "store3 P (n * 3) (fst pv)" and ?V = "store3 V (n * 3) (snd pv)"
  have step: "fold (updateParticle E m mf dt) [0..<Suc n] s
          = s\<lparr>positions := ?P, velocities := ?V, draws := draws s + 3 * Suc n\<rparr>"
    by (simp add: f updateParticle_def Let_def lp lv pv_def add.commute add.left_commute)
  have in_range: "n * 3 + 2 < length P" "n * 3 + 2 < length V"
    using Suc.prems lP lV by simp_all
  have new: "(load3 ?P (n * 3), load3 ?V (n * 3)) = pv"
    using in_range by (simp add: load3_store3_same)
  have old: "(load3 ?P (i * 3), load3 ?V (i * 3))
                 = stepParticle m mf (mouseWorld s) dt (drawn3 E (draws s + 3 * i))
                     (load3 (positions s) (i * 3), load3 (velocities s) (i * 3))" if "i < n" for i
  proof -
    have "i * 3 + 2 < n * 3" using that by simp
    then show ?thesis using prev that by (simp add: load3_store3_other)
  qed
  have later: "?P ! j = positions s ! j \<and> ?V ! j = velocities s ! j" if "Suc n * 3 \<le> j" for j
    using that rest by (simp add: nth_store3_other)
  show ?case
    apply (rule exI [of _ ?P], rule exI [of _ ?V])
    using step lP lV new old later by (auto simp add: less_Suc_eq pv_def)
qed

lemma mouseStep_zero [simp]: "mouseStep 0 mouse dt p v = v"
  by (cases mouse, cases p, cases v) simp

lemma blendStep_rest: "1 \<le> modeBlend s \<Longrightarrow> blendStep E dt s = s"
  by (simp add: blendStep_def)

lemma magnitude_x_axis: "magnitude (x, 0, 0) = \<bar>x\<bar>"
  by (simp add: magnitude_def)

subsection \<open>Well-formed states\<close>


lemma wf_precomputeTarget: "wf_World E s \<Longrightarrow> wf_World E (precomputeTarget E m hr i s)"
  by (simp add: wf_World_def precomputeTarget_def Let_def)

lemma wf_updateParticle: "wf_World E s \<Longrightarrow> wf_World E (updateParticle E m mf dt i s)"
  by (simp add: wf_World_def updateParticle_def Let_def)


lemma wf_blendStep:
  assumes "wf_World E s" "0 \<le> dt"
  shows "wf_World E (blendStep E dt s)"
proof -
  have "0 \<le> toDouble (modeBlend s + dt * 0.5)"
    using assms by (intro toDouble_nonneg) (simp add: wf_World_def)
  then show ?thesis
    using assms by (simp add: wf_World_def blendStep_def Let_def min_def)
qed


lemma wf_precomputeTargets: "wf_World E s \<Longrightarrow> wf_World E (precomputeTargets E m s)"
  unfolding precomputeTargets_def Let_def
  by (rule fold_invariant [where P = "wf_World E"]) (erule wf_precomputeTarget)


lemma drones_triggerColorChange [simp]:
  "drones (snd (triggerColorChange rnd ka)) = drones (snd ka)"
  by (simp add: triggerColorChange_def Let_def split: option.splits)

lemma drones_triggerSweep [simp]: "drones (snd (triggerSweep rnd ka)) = drones (snd ka)"
  by (simp add: triggerSweep_def Let_def split: option.splits)

lemma retune_length: "retune freqs t i ds = Inr ds' \<Longrightarrow> length ds' = length ds"
  by (induction ds arbitrary: i ds') (auto split: option.splits if_splits sum.splits)

lemma retune_ok: "i + length ds \<le> length fs \<Longrightarrow> \<exists>ds'. retune (Some fs) t i ds = Inr ds'"
proof (induction ds arbitrary: i)
  case Nil
  show ?case by simp
next
  case (Cons d ds)
  then have "Suc i + length ds \<le> length fs" by simp
  from Cons.IH [OF this] obtain ds' where "retune (Some fs) t (Suc i) ds = Inr ds'" by blast
  moreover have "i < length fs" using Cons.prems by simp
  ultimately show ?case by simp
qed

lemma soundSetMode_ok:
  assumes "0 \<le> index" "index < 5" "length (drones a) \<le> 3"
  shows "\<exists>k' a'. soundSetMode rnd index (k, a) = Inr (k', a') \<and> length (drones a') = length (drones a)"
proof -
  obtain fs where fs: "MODE_FREQS_at index = Some fs" "length fs = 3"
    using MODE_FREQS_at_valid assms(1,2) by blast
  let ?a = "a\<lparr>soundMode := index\<rparr>"
  show ?thesis
  proof (cases "ctx a")
    case None
    then show ?thesis by (simp add: soundSetMode_def)
  next
    case (Some c)
    show ?thesis
    proof (cases "enabled a")
      case False
      then show ?thesis using Some by (simp add: soundSetMode_def)
    next
      case True
      have "0 + length (drones a) \<le> length fs" using fs assms(3) by simp
      from retune_ok [OF this] obtain ds where
        ds: "retune (Some fs) (currentTime c + 3) 0 (drones a) = Inr ds" by blast
      have l: "length ds = length (drones a)" using retune_length [OF ds] .
      obtain k' a' where r: "triggerSweep rnd (k, ?a\<lparr>drones := ds\<rparr>) = (k', a')"
        by (cases "triggerSweep rnd (k, ?a\<lparr>drones := ds\<rparr>)")
      have "drones a' = ds"
        using drones_triggerSweep [of rnd "(k, ?a\<lparr>drones := ds\<rparr>)"] r by simp
      then show ?thesis
        using Some True fs ds r l by (simp add: soundSetMode_def)
    qed
  qed
qed


lemma wf_triggerColorTransition:
  assumes "wf_World E s"
  shows "\<exists>s'. triggerColorTransition E s = Inr s' \<and> wf_World E s'"
proof -
  let ?i = "if modeBlend s \<ge> 1 then currentMode s else targetMode s"
  have "0 \<le> ?i" "?i < 5" using assms by (simp_all add: wf_World_def)
  then obtain m where m: "MODES_at ?i = Some m" using MODES_at_valid by blast
  let ?s1 = "precomputeTargets E m s"
  let ?s2 = "if modeBlend ?s1 \<ge> 1 then ?s1\<lparr>modeBlend := 0.5, targetMode := currentMode ?s1\<rparr> else ?s1"
  have wf1: "wf_World E ?s1" using assms by (rule wf_precomputeTargets)
  then have wf2: "wf_World E ?s2" by (simp add: wf_World_def)
  let ?ka = "triggerColorChange (random E) (draws ?s2, audio ?s2)"
  have "drones (snd ?ka) = drones (audio ?s2)"
    using drones_triggerColorChange [of "random E" "(draws ?s2, audio ?s2)"] by simp
  then have "wf_World E (?s2\<lparr>audio := snd ?ka, draws := fst ?ka\<rparr>)"
    using wf2 by (simp add: wf_World_def)
  then show ?thesis using m by (simp add: triggerColorTransition_def Let_def)
qed



lemma wf_updateParticles:
  assumes "wf_World E s" "0 \<le> dt"
  shows "\<exists>m s'. getActiveMode s = Inr m \<and> 12 \<le> depthRange m
           \<and> updateParticles E dt s = Inr s' \<and> wf_World E s'"
proof -
  obtain m where m: "getActiveMode s = Inr m" "12 \<le> depthRange m"
    using getActiveMode_depth [of s] assms(1) by (auto simp add: wf_World_def)
  let ?s1 = "s\<lparr>bloomStrength := bloom m\<rparr>"
  let ?s2 = "fold (updateParticle E m (mouseStrength m ?s1) dt) [0..<COUNT E] ?s1"
  have "wf_World E ?s1" using assms(1) by (simp add: wf_World_def)
  then have "wf_World E ?s2"
    by (intro fold_invariant [where P = "wf_World E"]) (erule wf_updateParticle)
  then have "wf_World E (blendStep E dt ?s2)" using assms(2) by (rule wf_blendStep)
  then show ?thesis using m by (simp add: updateParticles_def Let_def)
qed


lemma positions_blendStep [simp]: "positions (blendStep E dt s) = positions s"
  by (simp add: blendStep_def Let_def)

lemma velocities_blendStep [simp]: "velocities (blendStep E dt s) = velocities s"
  by (simp add: blendStep_def Let_def)


subsection \<open>The blend fraction over a frame\<close>

lemma blend_fields_loop:
  "modeBlend (fold (updateParticle E m mf dt) is s) = modeBlend s
   \<and> targetMode (fold (updateParticle E m mf dt) is s) = targetMode s
   \<and> currentMode (fold (updateParticle E m mf dt) is s) = currentMode s"
  by (rule fold_invariant [where P = "\<lambda>t. modeBlend t = modeBlend s
        \<and> targetMode t = targetMode s \<and> currentMode t = currentMode s"])
     (simp_all add: updateParticle_def Let_def)

lemma updateParticles_blend:
  assumes "updateParticles E dt s = Inr s'"
  shows "targetMode s' = targetMode s
         \<and> modeBlend s' = (if modeBlend s < 1 then min (toDouble (modeBlend s + dt * 0.5)) 1
                            else modeBlend s)
         \<and> currentMode s' = (if modeBlend s < 1 \<and> 1 \<le> toDouble (modeBlend s + dt * 0.5)
                              then targetMode s else currentMode s)"
proof -
  obtain m where m: "getActiveMode s = Inr m"
    using assms by (cases "getActiveMode s") (simp_all add: updateParticles_def)
  let ?s1 = "s\<lparr>bloomStrength := bloom m\<rparr>"
  let ?s2 = "fold (updateParticle E m (mouseStrength m ?s1) dt) [0..<COUNT E] ?s1"
  have s': "s' = blendStep E dt ?s2"
    using assms m by (simp add: updateParticles_def Let_def)
  have "modeBlend ?s2 = modeBlend s" "targetMode ?s2 = targetMode s"
       "currentMode ?s2 = currentMode s"
    using blend_fields_loop [of E m "mouseStrength m ?s1" dt "[0..<COUNT E]" ?s1] by simp_all
  then show ?thesis
    unfolding s' by (simp add: blendStep_def Let_def min_def)
qed

text \<open>The fraction over a run of frames.\<close>

lemma blendAfter_range:
  assumes "0 \<le> dt"
  shows "0 \<le> blendAfter dt n \<and> blendAfter dt n \<le> 1
         \<and> toDouble (blendAfter dt n) = blendAfter dt n"
proof (induction n)
  case 0
  then show ?case by simp
next
  case (Suc n)
  have nn: "0 \<le> blendAfter dt n + dt * 0.5" using Suc assms by simp
  show ?case
  proof (cases "blendAfter dt n < 1")
    case True
    show ?thesis
    proof (cases "toDouble (blendAfter dt n + dt * 0.5) \<le> 1")
      case le: True
      then have "blendAfter dt (Suc n) = toDouble (blendAfter dt n + dt * 0.5)"
        using True by (simp add: min_def)
      then show ?thesis using le toDouble_nonneg [OF nn] toDouble_idem [OF nn] by simp
    next
      case False
      then have "blendAfter dt (Suc n) = 1" using True by (simp add: min_def)
      then show ?thesis by simp
    qed
  next
    case False
    then show ?thesis using Suc by simp
  qed
qed

lemma blendAfter_mono:
  assumes "0 \<le> dt"
  shows "blendAfter dt n \<le> blendAfter dt (Suc n)"
proof (cases "blendAfter dt n < 1")
  case True
  have r: "0 \<le> blendAfter dt n" "toDouble (blendAfter dt n) = blendAfter dt n"
    using blendAfter_range [OF assms, of n] by simp_all
  have "toDouble (blendAfter dt n) \<le> toDouble (blendAfter dt n + dt * 0.5)"
    using r(1) assms by (intro toDouble_mono) simp_all
  then show ?thesis using True r(2) by (simp add: min_def)
next
  case False
  then show ?thesis by simp
qed

lemma blendAfter_step:
  assumes "0 \<le> dt"
  shows "blendAfter dt (Suc n) = min (toDouble (blendAfter dt n + dt * 0.5)) 1"
proof (cases "blendAfter dt n < 1")
  case True
  then show ?thesis by simp
next
  case False
  then have one: "blendAfter dt n = 1" using blendAfter_range [OF assms, of n] by simp
  have "toDouble 1 \<le> toDouble (1 + dt * 0.5)"
    using assms by (intro toDouble_mono) simp_all
  then show ?thesis using one by (simp add: min_def)
qed

lemma blendAfter_lower:
  assumes "0 \<le> dt"
  shows "blendAfter dt n = 1 \<or> real n * (dt * 0.5) * (1 - 1 / 2 ^ 53) ^ n \<le> blendAfter dt n"
proof -
  define q :: real where "q = 1 - 1 / 2 ^ 53"
  define d where "d = dt * 0.5"
  have q: "0 \<le> q" "q \<le> 1" by (simp_all add: q_def)
  have d: "0 \<le> d" using assms by (simp add: d_def)
  have "blendAfter dt n = 1 \<or> real n * d * q ^ n \<le> blendAfter dt n"
  proof (induction n)
    case 0
    then show ?case by simp
  next
    case (Suc n)
    have qn: "0 \<le> q ^ n" "q ^ n \<le> 1" using q by (simp_all add: power_le_one)
    have rng: "0 \<le> blendAfter dt n" "blendAfter dt n \<le> 1"
      using blendAfter_range [OF assms, of n] by simp_all
    show ?case
    proof (cases "blendAfter dt n = 1")
      case True
      then show ?thesis by simp
    next
      case False
      then have lt: "blendAfter dt n < 1" using rng by simp
      from False Suc have low: "real n * d * q ^ n \<le> blendAfter dt n" by simp
      show ?thesis
      proof (cases "1 \<le> toDouble (blendAfter dt n + d)")
        case True
        then show ?thesis using lt by (simp add: min_def d_def)
      next
        case nr: False
        then have eq: "blendAfter dt (Suc n) = toDouble (blendAfter dt n + d)"
          using lt by (simp add: min_def d_def)
        have "d * q ^ n \<le> d" using d qn by (simp add: mult_left_le)
        then have "real n * d * q ^ n + d * q ^ n \<le> blendAfter dt n + d"
          using low by simp
        then have "(real n * d * q ^ n + d * q ^ n) * q \<le> (blendAfter dt n + d) * q"
          using q(1) by (rule mult_right_mono)
        also have "\<dots> \<le> toDouble (blendAfter dt n + d)"
          unfolding q_def using rng d by (intro toDouble_lower) simp
        finally have A: "(real n * d * q ^ n + d * q ^ n) * q \<le> toDouble (blendAfter dt n + d)" .
        have B: "(real n * d * q ^ n + d * q ^ n) * q = real (Suc n) * d * q ^ Suc n"
          by (simp add: algebra_simps)
        have "real (Suc n) * d * q ^ Suc n \<le> blendAfter dt (Suc n)"
          using A B eq by linarith
        then show ?thesis by (rule disjI2)
      qed
    qed
  qed
  then show ?thesis by (simp only: q_def d_def)
qed

lemma blendAfter_reaches:
  assumes "1 / 2 ^ 20 \<le> dt"
  shows "blendAfter dt (nat \<lceil>2 / dt\<rceil> + 1) = 1"
proof -
  define N where "N = nat \<lceil>2 / dt\<rceil> + 1"
  define q :: real where "q = 1 - 1 / 2 ^ 53"
  define d where "d = dt * 0.5"
  have dt: "0 < dt" "0 \<le> dt" using assms by (simp_all add: less_le_trans [of 0 "1 / 2 ^ 20"])
  have d: "1 / 2 ^ 21 \<le> d" "0 \<le> d" using assms dt by (simp_all add: d_def)
  have c0: "0 \<le> \<lceil>2 / dt\<rceil>" using dt by (simp add: zero_le_ceiling less_le_trans [of "- 1" 0])
  have N: "real N = real_of_int \<lceil>2 / dt\<rceil> + 1" using c0 by (simp add: N_def)
  have lo: "2 / dt + 1 \<le> real N" unfolding N using le_of_int_ceiling [of "2 / dt"] by simp
  have hi: "real N \<le> 2 / dt + 2"
    unfolding N using of_int_ceiling_le_add_one [of "2 / dt"] by linarith
  have "2 / dt \<le> 2 / (1 / 2 ^ 20)" using assms by (intro divide_left_mono) simp_all
  then have hi': "real N \<le> 2 ^ 21 + 2" using hi by simp
  have Nd: "1 + d \<le> real N * d"
  proof -
    have "(2 / dt + 1) * d \<le> real N * d" using lo d(2) by (rule mult_right_mono)
    moreover have "(2 / dt + 1) * d = 1 + d" using dt by (simp add: field_simps d_def)
    ultimately show ?thesis by simp
  qed
  have "1 + real N * (- (1 / 2 ^ 53)) \<le> (1 + (- (1 / 2 ^ 53))) ^ N"
    by (rule Bernoulli_inequality) simp
  then have bern: "1 - real N * (1 / 2 ^ 53) \<le> q ^ N" by (simp add: q_def)
  have "real N * (1 / 2 ^ 53) \<le> (2 ^ 21 + 2) * (1 / 2 ^ 53)"
    using hi' by (rule mult_right_mono) simp
  also have "\<dots> \<le> 1 / 2 ^ 31" by simp
  finally have qN: "1 - 1 / 2 ^ 31 \<le> q ^ N" using bern by linarith
  have "1 / 2 ^ 31 \<le> (1 / 2 ^ 21) * (1 - 1 / 2 ^ 31 :: real)" by simp
  also have "\<dots> \<le> d * (1 - 1 / 2 ^ 31)" using d(1) by (rule mult_right_mono) simp
  finally have "1 \<le> (1 + d) * (1 - 1 / 2 ^ 31)" by (simp add: algebra_simps)
  also have "\<dots> \<le> (real N * d) * q ^ N"
    using Nd qN d(2) by (intro mult_mono) simp_all
  finally have big: "1 \<le> real N * d * q ^ N" .
  have "blendAfter dt N = 1 \<or> real N * d * q ^ N \<le> blendAfter dt N"
    using blendAfter_lower [OF dt(2), of N] by (simp only: q_def d_def)
  moreover have "blendAfter dt N \<le> 1" using blendAfter_range [OF dt(2), of N] by simp
  ultimately have "blendAfter dt N = 1" using big by linarith
  then show ?thesis by (simp only: N_def)
qed

lemma ticks_blend:
  assumes "wf_World E s" "0 \<le> dt" "modeBlend s = 0"
  shows "\<exists>s'. ticks E dt n s = Inr s' \<and> wf_World E s'
           \<and> modeBlend s' = blendAfter dt n \<and> targetMode s' = targetMode s
           \<and> currentMode s' = (if 1 \<le> blendAfter dt n then targetMode s else currentMode s)"
proof (induction n)
  case 0
  then show ?case using assms by simp
next
  case (Suc n)
  then obtain s1 where s1: "ticks E dt n s = Inr s1" "wf_World E s1"
    "modeBlend s1 = blendAfter dt n" "targetMode s1 = targetMode s"
    "currentMode s1 = (if 1 \<le> blendAfter dt n then targetMode s else currentMode s)"
    by blast
  from wf_updateParticles [OF s1(2) assms(2)] obtain s2 where
    s2: "updateParticles E dt s1 = Inr s2" "wf_World E s2"
    by blast
  note b = updateParticles_blend [OF s2(1)]
  have "modeBlend s2 = blendAfter dt (Suc n)" using b s1(3) by simp
  moreover have "targetMode s2 = targetMode s" using b s1(4) by simp
  moreover have "currentMode s2
      = (if 1 \<le> blendAfter dt (Suc n) then targetMode s else currentMode s)"
    using b s1(3,4,5) by (auto simp add: min_def)
  ultimately show ?case using s1(1) s2 by simp
qed

lemma blendAfter_next:
  assumes "blendAfter dt n = b" and "m = Suc n" and "b < 1"
    and "2 ^ 52 \<le> (b + dt * 0.5) * 2 ^ q" and "(b + dt * 0.5) * 2 ^ q < 2 ^ 53"
    and "of_int (roundHalfEven ((b + dt * 0.5) * 2 ^ q)) / 2 ^ q = b'" and "b' \<le> 1"
  shows "blendAfter dt m = b'"
proof -
  have "toDouble (b + dt * 0.5) = b'"
    using toDouble_scaled [OF assms(4,5)] assms(6) by simp
  then show ?thesis using assms(1,2,3,7) by (simp add: min_def)
qed

subsection \<open>Free motion\<close>









subsection \<open>Resampling the targets\<close>

lemma precomputeTarget_loop:
  assumes "n * 3 \<le> length (targetColors s)" "n \<le> length (targetSizes s)"
  shows "\<exists>C S T. fold (precomputeTarget E m hr) [0..<n] s
             = s\<lparr>targetColors := C, targetSizes := S, tmpColor := T, draws := draws s + 4 * n\<rparr>
           \<and> length C = length (targetColors s) \<and> length S = length (targetSizes s)
           \<and> (\<forall>i < n. load3 C (i * 3)
                   = toRGB E (sampleHSL E m hr (getSatRange s m) (draws s + 4 * i))
                 \<and> S ! i = sampleSize E m (draws s + 4 * i + 3))"
  using assms
proof (induction n)
  case 0
  show ?case
    by (rule exI [of _ "targetColors s"], rule exI [of _ "targetSizes s"],
        rule exI [of _ "tmpColor s"]) simp
next
  case (Suc n)
  then obtain C S T where
    f: "fold (precomputeTarget E m hr) [0..<n] s
          = s\<lparr>targetColors := C, targetSizes := S, tmpColor := T, draws := draws s + 4 * n\<rparr>"
    and lC: "length C = length (targetColors s)" and lS: "length S = length (targetSizes s)"
    and prev: "\<forall>i < n. load3 C (i * 3)
                   = toRGB E (sampleHSL E m hr (getSatRange s m) (draws s + 4 * i))
                 \<and> S ! i = sampleSize E m (draws s + 4 * i + 3)"
    by auto
  define rgb where "rgb = toRGB E (sampleHSL E m hr (getSatRange s m) (draws s + 4 * n))"
  let ?C = "store3 C (n * 3) rgb" and ?S = "S[n := sampleSize E m (draws s + 4 * n + 3)]"
  have sr: "getSatRange (s\<lparr>targetColors := C, targetSizes := S, tmpColor := T,
                draws := draws s + 4 * n\<rparr>) m = getSatRange s m"
    by (simp add: getSatRange_def)
  have step: "fold (precomputeTarget E m hr) [0..<Suc n] s
          = s\<lparr>targetColors := ?C, targetSizes := ?S, tmpColor := rgb,
               draws := draws s + 4 * Suc n\<rparr>"
    by (simp add: f precomputeTarget_def Let_def sr rgb_def add.commute add.left_commute)
  have in_range: "n * 3 + 2 < length C" "n < length S"
    using Suc.prems lC lS by simp_all
  have new: "load3 ?C (n * 3) = rgb" "?S ! n = sampleSize E m (draws s + 4 * n + 3)"
    using in_range by (simp_all add: load3_store3_same)
  have old: "load3 ?C (i * 3) = toRGB E (sampleHSL E m hr (getSatRange s m) (draws s + 4 * i))
               \<and> ?S ! i = sampleSize E m (draws s + 4 * i + 3)" if "i < n" for i
  proof -
    have "i * 3 + 2 < n * 3" using that by simp
    then show ?thesis using prev that by (simp add: load3_store3_other)
  qed
  show ?case
    apply (rule exI [of _ ?C], rule exI [of _ ?S], rule exI [of _ rgb])
    using step lC lS new old by (auto simp add: less_Suc_eq rgb_def)
qed

lemma precomputeTargets_each:
  assumes "wf_World E s"
  shows "\<exists>C S T. precomputeTargets E m s
             = s\<lparr>targetColors := C, targetSizes := S, tmpColor := T,
                  draws := draws s + 4 * COUNT E\<rparr>
           \<and> (\<forall>i < COUNT E. load3 C (i * 3)
                   = toRGB E (sampleHSL E m (getHueRange s m) (getSatRange s m) (draws s + 4 * i))
                 \<and> S ! i = sampleSize E m (draws s + 4 * i + 3))"
proof -
  have "COUNT E * 3 \<le> length (targetColors s)" "COUNT E \<le> length (targetSizes s)"
    using assms by (simp_all add: wf_World_def)
  from precomputeTarget_loop [OF this, of E m "getHueRange s m"]
  show ?thesis unfolding precomputeTargets_def Let_def by blast
qed

lemma triggerSweep_draws: "fst ka \<le> fst (triggerSweep rnd ka)"
  by (simp add: triggerSweep_def Let_def split: option.splits)

lemma soundSetMode_draws:
  assumes "soundSetMode rnd index (k, a) = Inr (k', a')"
  shows "k \<le> k'"
proof -
  have "k \<le> fst (triggerSweep rnd (k, b))" for b
    using triggerSweep_draws [of "(k, b)" rnd] by simp
  then show ?thesis
    using assms
    by (auto simp add: soundSetMode_def Let_def split: option.splits if_splits sum.splits)
       (metis fst_conv)
qed

lemma setMode_result:
  assumes "wf_World E s" "0 \<le> index" "index < int (length MODES)"
    and "\<not> (index = currentMode s \<and> 1 \<le> modeBlend s)"
  shows "\<exists>m C S T k' a'. MODES_at index = Some m
           \<and> setMode E index s
               = Inr (s\<lparr>targetMode := index, modeBlend := 0, audio := a',
                        targetColors := C, targetSizes := S, tmpColor := T, draws := k'\<rparr>)
           \<and> soundSetMode (random E) index (draws s + 4 * COUNT E, audio s) = Inr (k', a')
           \<and> draws s + 4 * COUNT E \<le> k'
           \<and> (\<forall>i < COUNT E. load3 C (i * 3)
                   = toRGB E (sampleHSL E m (getHueRange s m) (getSatRange s m) (draws s + 4 * i))
                 \<and> S ! i = sampleSize E m (draws s + 4 * i + 3))"
proof -
  have idx: "0 \<le> index" "index < 5" using assms(2,3) by (simp_all add: MODES_def)
  obtain m where m: "MODES_at index = Some m" using MODES_at_valid idx by blast
  let ?s1 = "s\<lparr>targetMode := index, modeBlend := 0\<rparr>"
  have wf1: "wf_World E ?s1" using assms(1) idx by (simp add: wf_World_def)
  from precomputeTargets_each [OF wf1, of m] obtain C S T where
    p: "precomputeTargets E m ?s1
          = ?s1\<lparr>targetColors := C, targetSizes := S, tmpColor := T,
                  draws := draws ?s1 + 4 * COUNT E\<rparr>"
    and each: "\<forall>i < COUNT E. load3 C (i * 3)
                   = toRGB E (sampleHSL E m (getHueRange ?s1 m) (getSatRange ?s1 m)
                       (draws ?s1 + 4 * i))
                 \<and> S ! i = sampleSize E m (draws ?s1 + 4 * i + 3)"
    by blast
  have "length (drones (audio s)) \<le> 3" using assms(1) by (simp add: wf_World_def)
  from soundSetMode_ok [OF idx this, of "random E" "draws s + 4 * COUNT E"] obtain k' a' where
    r: "soundSetMode (random E) index (draws s + 4 * COUNT E, audio s) = Inr (k', a')" by blast
  have k': "draws s + 4 * COUNT E \<le> k'" using soundSetMode_draws [OF r] .
  have ranges: "getHueRange ?s1 m = getHueRange s m" "getSatRange ?s1 m = getSatRange s m"
    by (simp_all add: getHueRange_def getSatRange_def)
  have "setMode E index s
          = Inr (s\<lparr>targetMode := index, modeBlend := 0, audio := a',
                   targetColors := C, targetSizes := S, tmpColor := T, draws := k'\<rparr>)"
    using assms(2,3,4) m p r by (auto simp add: setMode_def Let_def)
  moreover have "\<forall>i < COUNT E. load3 C (i * 3)
                   = toRGB E (sampleHSL E m (getHueRange s m) (getSatRange s m) (draws s + 4 * i))
                 \<and> S ! i = sampleSize E m (draws s + 4 * i + 3)"
    using each unfolding ranges by simp
  ultimately show ?thesis using m r k' by blast
qed

lemma triggerColorTransition_result:
  assumes "wf_World E s"
  shows "\<exists>m s' C. MODES_at (if 1 \<le> modeBlend s then currentMode s else targetMode s) = Some m
           \<and> triggerColorTransition E s = Inr s' \<and> targetColors s' = C
           \<and> (\<forall>i < COUNT E. load3 C (i * 3)
                   = toRGB E (sampleHSL E m (getHueRange s m) (getSatRange s m) (draws s + 4 * i))
                 \<and> targetSizes s' ! i = sampleSize E m (draws s + 4 * i + 3))"
proof -
  let ?i = "if 1 \<le> modeBlend s then currentMode s else targetMode s"
  have "0 \<le> ?i" "?i < 5" using assms by (simp_all add: wf_World_def)
  then obtain m where m: "MODES_at ?i = Some m" using MODES_at_valid by blast
  from precomputeTargets_each [OF assms, of m] obtain C S T where
    p: "precomputeTargets E m s
          = s\<lparr>targetColors := C, targetSizes := S, tmpColor := T,
                draws := draws s + 4 * COUNT E\<rparr>"
    and each: "\<forall>i < COUNT E. load3 C (i * 3)
                   = toRGB E (sampleHSL E m (getHueRange s m) (getSatRange s m) (draws s + 4 * i))
                 \<and> S ! i = sampleSize E m (draws s + 4 * i + 3)"
    by blast
  obtain s' where s': "triggerColorTransition E s = Inr s'"
    using wf_triggerColorTransition [OF assms] by blast
  have "targetColors s' = C \<and> targetSizes s' = S"
    using s' m p by (auto simp add: triggerColorTransition_def Let_def split: if_splits)
  then show ?thesis using m s' each by blast
qed

lemma sampleHSL_override:
  assumes "0 \<le> random E k" "random E k < 1" "0 \<le> random E (k + 1)" "random E (k + 1) < 1"
    and "colorOverride s = Some h"
  shows "\<exists>hue sat light.
           sampleHSL E m (getHueRange s m) (getSatRange s m) k = (hue, sat, light)
           \<and> h - 0.06 \<le> hue \<and> hue \<le> h + 0.06 \<and> 0.5 \<le> sat"
proof -
  let ?a = "max (fst (satRange m)) 0.5" and ?b = "max (snd (satRange m)) 0.9"
  have hue: "h - 0.06 \<le> (h - 0.06) + random E k * ((h + 0.06) - (h - 0.06))"
            "(h - 0.06) + random E k * ((h + 0.06) - (h - 0.06)) \<le> h + 0.06"
    using assms(1,2) by simp_all
  have "0.5 \<le> lerp ?a ?b (random E (k + 1))"
    using assms(3,4) by (intro lerp_lower) simp_all
  then have sat: "0.5 \<le> ?a + random E (k + 1) * (?b - ?a)"
    by (simp add: lerp_def mult.commute)
  show ?thesis
    using hue sat assms(5)
    by (simp add: sampleHSL_def getHueRange_def getSatRange_def Let_def)
qed

subsection \<open>The loop of a click burst\<close>

lemma burstHits_0 [simp]: "burstHits wx wy rsq ps 0 = 0"
  by (simp add: burstHits_def)

lemma burstHits_Suc:
  "burstHits wx wy rsq ps (Suc n)
     = burstHits wx wy rsq ps n
       + (if (ps ! (n * 3) - wx) * (ps ! (n * 3) - wx)
             + (ps ! (n * 3 + 1) - wy) * (ps ! (n * 3 + 1) - wy) < rsq then 1 else 0)"
  by (simp add: burstHits_def)

lemma burstParticle_hit:
  assumes "(positions s ! (i * 3) - wx) * (positions s ! (i * 3) - wx)
             + (positions s ! (i * 3 + 1) - wy) * (positions s ! (i * 3 + 1) - wy) < rsq"
  shows "burstParticle E wx wy force rsq i s
     = (let dx = positions s ! (i * 3) - wx; dy = positions s ! (i * 3 + 1) - wy;
            distSq = dx * dx + dy * dy;
            strength = (1 - distSq / rsq) * force; dist = sqrt distSq + 0.5
        in s\<lparr>velocities := store3 (velocities s) (i * 3)
                 (velocities s ! (i * 3) + (dx / dist) * strength,
                  velocities s ! (i * 3 + 1) + (dy / dist) * strength,
                  velocities s ! (i * 3 + 2) + (random E (draws s) - 0.5) * \<bar>strength\<bar> * 0.3),
              draws := draws s + 1\<rparr>)"
  using assms by (simp add: burstParticle_def Let_def store3_def)

lemma burstParticle_miss:
  assumes "\<not> (positions s ! (i * 3) - wx) * (positions s ! (i * 3) - wx)
             + (positions s ! (i * 3 + 1) - wy) * (positions s ! (i * 3 + 1) - wy) < rsq"
  shows "burstParticle E wx wy force rsq i s = s"
  using assms by (simp add: burstParticle_def Let_def)

lemma burstParticle_loop:
  assumes "n * 3 \<le> length (velocities s)"
  shows "\<exists>V. fold (burstParticle E wx wy force rsq) [0..<n] s
             = s\<lparr>velocities := V, draws := draws s + burstHits wx wy rsq (positions s) n\<rparr>
           \<and> length V = length (velocities s)
           \<and> (\<forall>j \<ge> n * 3. V ! j = velocities s ! j)
           \<and> (\<forall>i < n.
                 (let dx = positions s ! (i * 3) - wx; dy = positions s ! (i * 3 + 1) - wy;
                      distSq = dx * dx + dy * dy;
                      strength = (1 - distSq / rsq) * force; dist = sqrt distSq + 0.5
                  in load3 V (i * 3)
                       = (if distSq < rsq then
                            (velocities s ! (i * 3) + (dx / dist) * strength,
                             velocities s ! (i * 3 + 1) + (dy / dist) * strength,
                             velocities s ! (i * 3 + 2)
                               + (random E (draws s + burstHits wx wy rsq (positions s) i) - 0.5)
                                 * \<bar>strength\<bar> * 0.3)
                          else load3 (velocities s) (i * 3))))"
  using assms
proof (induction n)
  case 0
  show ?case by (rule exI [of _ "velocities s"]) simp
next
  case (Suc n)
  let ?exp = "\<lambda>i. (let dx = positions s ! (i * 3) - wx; dy = positions s ! (i * 3 + 1) - wy;
                      distSq = dx * dx + dy * dy;
                      strength = (1 - distSq / rsq) * force; dist = sqrt distSq + 0.5
                  in (if distSq < rsq then
                            (velocities s ! (i * 3) + (dx / dist) * strength,
                             velocities s ! (i * 3 + 1) + (dy / dist) * strength,
                             velocities s ! (i * 3 + 2)
                               + (random E (draws s + burstHits wx wy rsq (positions s) i) - 0.5)
                                 * \<bar>strength\<bar> * 0.3)
                          else load3 (velocities s) (i * 3)))"
  from Suc obtain V where
    f: "fold (burstParticle E wx wy force rsq) [0..<n] s
          = s\<lparr>velocities := V, draws := draws s + burstHits wx wy rsq (positions s) n\<rparr>"
    and lV: "length V = length (velocities s)"
    and rest: "\<forall>j \<ge> n * 3. V ! j = velocities s ! j"
    and prev: "\<forall>i < n. load3 V (i * 3) = ?exp i"
    by (auto simp add: Let_def)
  let ?t = "s\<lparr>velocities := V, draws := draws s + burstHits wx wy rsq (positions s) n\<rparr>"
  let ?hit = "(positions s ! (n * 3) - wx) * (positions s ! (n * 3) - wx)
             + (positions s ! (n * 3 + 1) - wy) * (positions s ! (n * 3 + 1) - wy) < rsq"
  have in_range: "n * 3 + 2 < length V" using Suc.prems lV by simp
  have vn: "V ! (n * 3) = velocities s ! (n * 3)" "V ! (n * 3 + 1) = velocities s ! (n * 3 + 1)"
    "V ! (n * 3 + 2) = velocities s ! (n * 3 + 2)"
    "V ! Suc (n * 3) = velocities s ! Suc (n * 3)"
    "V ! Suc (Suc (n * 3)) = velocities s ! Suc (Suc (n * 3))"
    using rest by simp_all
  have "\<exists>V'. burstParticle E wx wy force rsq n ?t
            = s\<lparr>velocities := V', draws := draws s + burstHits wx wy rsq (positions s) (Suc n)\<rparr>
          \<and> length V' = length V \<and> (\<forall>j. j < n * 3 \<or> n * 3 + 2 < j \<longrightarrow> V' ! j = V ! j)
          \<and> load3 V' (n * 3) = ?exp n"
  proof (cases ?hit)
    case True
    let ?V' = "store3 V (n * 3) (?exp n)"
    have "burstParticle E wx wy force rsq n ?t
            = s\<lparr>velocities := ?V', draws := draws s + burstHits wx wy rsq (positions s) (Suc n)\<rparr>"
      using True by (simp add: burstParticle_hit burstHits_Suc Let_def vn)
    moreover have "load3 ?V' (n * 3) = ?exp n" using in_range by (rule load3_store3_same)
    moreover have "\<forall>j. j < n * 3 \<or> n * 3 + 2 < j \<longrightarrow> ?V' ! j = V ! j"
      by (simp add: nth_store3_other)
    ultimately show ?thesis by (intro exI [of _ ?V']) simp
  next
    case False
    have "burstParticle E wx wy force rsq n ?t
            = s\<lparr>velocities := V, draws := draws s + burstHits wx wy rsq (positions s) (Suc n)\<rparr>"
      using False by (simp add: burstParticle_miss burstHits_Suc)
    moreover have "load3 V (n * 3) = ?exp n"
      using False vn by (simp add: Let_def load3_def)
    ultimately show ?thesis by (intro exI [of _ V]) simp
  qed
  then obtain V' where
    step: "burstParticle E wx wy force rsq n ?t
            = s\<lparr>velocities := V', draws := draws s + burstHits wx wy rsq (positions s) (Suc n)\<rparr>"
    and lV': "length V' = length V"
    and other: "\<forall>j. j < n * 3 \<or> n * 3 + 2 < j \<longrightarrow> V' ! j = V ! j"
    and new: "load3 V' (n * 3) = ?exp n"
    by blast
  have fold_step: "fold (burstParticle E wx wy force rsq) [0..<Suc n] s
          = s\<lparr>velocities := V', draws := draws s + burstHits wx wy rsq (positions s) (Suc n)\<rparr>"
    using f step by simp
  have old: "load3 V' (i * 3) = ?exp i" if "i < n" for i
  proof -
    have "i * 3 + 2 < n * 3" using that by simp
    then have "load3 V' (i * 3) = load3 V (i * 3)" using other by (simp add: load3_def)
    then show ?thesis using prev that by simp
  qed
  have all: "\<forall>i < Suc n. load3 V' (i * 3) = ?exp i"
    using old new by (auto simp add: less_Suc_eq)
  have later: "\<forall>j \<ge> Suc n * 3. V' ! j = velocities s ! j"
    using other rest by simp
  show ?case
    apply (rule exI [of _ V'])
    using fold_step lV' lV later all by (simp add: Let_def)
qed

subsection \<open>A click burst and the depth axis\<close>

lemma burstParticle_depth:
  assumes "k mod 3 = 2"
  shows "burstParticle E wx wy force rsq i (s\<lparr>positions := (positions s)[k := z]\<rparr>)
     = (burstParticle E wx wy force rsq i s)\<lparr>positions := (positions s)[k := z]\<rparr>"
proof -
  have "k \<noteq> i * 3" "k \<noteq> i * 3 + 1" using assms by presburger+
  then have "(positions s)[k := z] ! (i * 3) = positions s ! (i * 3)"
       "(positions s)[k := z] ! (i * 3 + 1) = positions s ! (i * 3 + 1)"
    by simp_all
  then show ?thesis by (simp add: burstParticle_def Let_def)
qed

lemma positions_burstParticle [simp]:
  "positions (burstParticle E wx wy force rsq i s) = positions s"
  by (simp add: burstParticle_def Let_def)

lemma burst_loop_depth:
  assumes "k mod 3 = 2"
  shows "fold (burstParticle E wx wy force rsq) is (s\<lparr>positions := (positions s)[k := z]\<rparr>)
     = (fold (burstParticle E wx wy force rsq) is s)\<lparr>positions := (positions s)[k := z]\<rparr>"
proof (induction "is" arbitrary: s)
  case Nil
  show ?case by simp
next
  case (Cons i "is")
  have "fold (burstParticle E wx wy force rsq) (i # is) (s\<lparr>positions := (positions s)[k := z]\<rparr>)
        = fold (burstParticle E wx wy force rsq) is
            ((burstParticle E wx wy force rsq i s)
               \<lparr>positions := (positions (burstParticle E wx wy force rsq i s))[k := z]\<rparr>)"
    by (simp add: burstParticle_depth [OF assms])
  also have "\<dots> = (fold (burstParticle E wx wy force rsq) is (burstParticle E wx wy force rsq i s))
            \<lparr>positions := (positions (burstParticle E wx wy force rsq i s))[k := z]\<rparr>"
    by (rule Cons.IH)
  finally show ?case by simp
qed

lemma burstAt_depth:
  assumes "k mod 3 = 2"
  shows "burstAt E wx wy push (s\<lparr>positions := (positions s)[k := z]\<rparr>)
     = (burstAt E wx wy push s)\<lparr>positions := (positions s)[k := z]\<rparr>"
  by (simp add: burstAt_def Let_def burst_loop_depth [OF assms])

lemma burstAt_result:
  assumes "COUNT E * 3 \<le> length (velocities s)"
  shows "\<exists>V. burstAt E wx wy push s
            = s\<lparr>velocities := V,
                 audio := snd (triggerBurst (random E)
                            (draws s + burstHits wx wy (12 * 12) (positions s) (COUNT E), audio s)),
                 draws := fst (triggerBurst (random E)
                            (draws s + burstHits wx wy (12 * 12) (positions s) (COUNT E), audio s))\<rparr>
          \<and> (\<forall>i < COUNT E.
                 (let dx = positions s ! (i * 3) - wx; dy = positions s ! (i * 3 + 1) - wy;
                      distSq = dx * dx + dy * dy;
                      strength = (1 - distSq / (12 * 12)) * (if push then - 3 else 3);
                      dist = sqrt distSq + 0.5
                  in load3 V (i * 3)
                       = (if distSq < 12 * 12 then
                            (velocities s ! (i * 3) + (dx / dist) * strength,
                             velocities s ! (i * 3 + 1) + (dy / dist) * strength,
                             velocities s ! (i * 3 + 2)
                               + (random E (draws s + burstHits wx wy (12 * 12) (positions s) i)
                                    - 0.5) * \<bar>strength\<bar> * 0.3)
                          else load3 (velocities s) (i * 3))))"
proof -
  from burstParticle_loop [OF assms, of E wx wy "if push then - 3 else 3" "12 * 12"]
  obtain V where
    f: "fold (burstParticle E wx wy (if push then - 3 else 3) (12 * 12)) [0..<COUNT E] s
          = s\<lparr>velocities := V,
               draws := draws s + burstHits wx wy (12 * 12) (positions s) (COUNT E)\<rparr>"
    and each: "\<forall>i < COUNT E.
                 (let dx = positions s ! (i * 3) - wx; dy = positions s ! (i * 3 + 1) - wy;
                      distSq = dx * dx + dy * dy;
                      strength = (1 - distSq / (12 * 12)) * (if push then - 3 else 3);
                      dist = sqrt distSq + 0.5
                  in load3 V (i * 3)
                       = (if distSq < 12 * 12 then
                            (velocities s ! (i * 3) + (dx / dist) * strength,
                             velocities s ! (i * 3 + 1) + (dy / dist) * strength,
                             velocities s ! (i * 3 + 2)
                               + (random E (draws s + burstHits wx wy (12 * 12) (positions s) i)
                                    - 0.5) * \<bar>strength\<bar> * 0.3)
                          else load3 (velocities s) (i * 3)))"
    by blast
  have "burstAt E wx wy push s
            = s\<lparr>velocities := V,
                 audio := snd (triggerBurst (random E)
                            (draws s + burstHits wx wy (12 * 12) (positions s) (COUNT E), audio s)),
                 draws := fst (triggerBurst (random E)
                            (draws s + burstHits wx wy (12 * 12) (positions s) (COUNT E), audio s))\<rparr>"
    unfolding burstAt_def Let_def f by simp
  then show ?thesis using each by blast
qed

lemma cues_triggerBurst:
  "length (cues (snd (triggerBurst rnd (k, a))))
     = length (cues a) + (if ctx a \<noteq> None \<and> enabled a then 2 else 0)"
  by (simp add: triggerBurst_def Let_def split: option.splits)

section \<open>Positions stay in the box\<close>






text \<open>
  Nor is the depth range interpolated at the start of the frame a bound of what the
  buffer holds: a particle clamped to \<open>d = 37.9\<close> is stored as the single-precision
  number next to it, which is larger.
\<close>

lemma toSingle_exceeds: "toSingle 37.9 = 9935258 / 262144" "37.9 < toSingle 37.9"
proof -
  show r: "toSingle 37.9 = 9935258 / 262144"
    using toSingle_scaled [of "37.9" 18] by (simp add: roundHalfEven_def)
  show "37.9 < toSingle 37.9" unfolding r by simp
qed

section \<open>Scenario: center pull in mode void\<close>

lemma sqrt_900: "sqrt 900 = 30"
  by (rule real_sqrt_unique) simp_all

lemma stepParticle_void_scenario:
  "stepParticle void 0 mouse (1 / 60) (1 / 2, 1 / 2, 1 / 2) ((30, 0, 0), (0, 0, 0))
     = ((30 - 0.996 * (0.0002 * (30.1 - 18)) * (30 / 30.1), 0, 0),
        (- (0.996 * (0.0002 * (30.1 - 18)) * (30 / 30.1)), 0, 0))"
  by (simp add: stepParticle_def void_def sqrt_900 BOUNDS_def)

text \<open>
  C2, as the code computes it. At rest in mode void, with the pointer away, a particle
  at \<open>(30, 0, 0)\<close> with velocity zero whose three drift draws are \<open>1/2\<close> has, after one
  frame at \<open>dt = 1/60\<close>, the velocity \<open>(- c, 0, 0)\<close> and the position \<open>(30 - c, 0, 0)\<close>,
  where \<open>c = damping * centerPull * (centerDist - equilibrium) * (30 / centerDist)\<close> with
  \<open>centerDist = 30 + 0.1\<close>, that is \<open>c = 90387 / 37625000\<close>, about \<open>0.0024\<close>; its distance
  from the origin is then less than 30.
\<close>

theorem center_pull_scenario:
  assumes "currentMode s = 4" "1 \<le> modeBlend s" "\<not> mouseDown s" "\<not> mouseActive s"
    and "i < COUNT E"
    and "COUNT E * 3 \<le> length (positions s)" "COUNT E * 3 \<le> length (velocities s)"
    and "load3 (positions s) (i * 3) = (30, 0, 0)" "load3 (velocities s) (i * 3) = (0, 0, 0)"
    and "drawn3 E (draws s + 3 * i) = (1 / 2, 1 / 2, 1 / 2)"
  shows "\<exists>s'. updateParticles E (1 / 60) s = Inr s'
           \<and> load3 (velocities s') (i * 3)
               = (- (0.996 * (0.0002 * (30.1 - 18)) * (30 / 30.1)), 0, 0)
           \<and> load3 (positions s') (i * 3)
               = (30 - 0.996 * (0.0002 * (30.1 - 18)) * (30 / 30.1), 0, 0)
           \<and> magnitude (load3 (positions s') (i * 3)) < 30"
proof -
  have m: "getActiveMode s = Inr void"
    using assms(1,2) by (simp add: getActiveMode_def MODES_at_def MODES_def)
  let ?s1 = "s\<lparr>bloomStrength := bloom void\<rparr>"
  have mf: "mouseStrength void ?s1 = 0"
    using assms(3,4) by (simp add: mouseStrength_def)
  from updateParticle_loop [of "COUNT E" ?s1 E void 0 "1 / 60"] assms(6,7)
  obtain P V where
    f: "fold (updateParticle E void 0 (1 / 60)) [0..<COUNT E] ?s1
          = ?s1\<lparr>positions := P, velocities := V, draws := draws ?s1 + 3 * COUNT E\<rparr>"
    and each: "\<forall>i < COUNT E. (load3 P (i * 3), load3 V (i * 3))
                 = stepParticle void 0 (mouseWorld ?s1) (1 / 60) (drawn3 E (draws ?s1 + 3 * i))
                     (load3 (positions ?s1) (i * 3), load3 (velocities ?s1) (i * 3))"
    by auto
  let ?s2 = "?s1\<lparr>positions := P, velocities := V, draws := draws ?s1 + 3 * COUNT E\<rparr>"
  have res: "updateParticles E (1 / 60) s = Inr ?s2"
    using assms(2) by (simp add: updateParticles_def m mf f Let_def blendStep_rest)
  have pv: "(load3 P (i * 3), load3 V (i * 3))
      = ((30 - 0.996 * (0.0002 * (30.1 - 18)) * (30 / 30.1), 0, 0),
        (- (0.996 * (0.0002 * (30.1 - 18)) * (30 / 30.1)), 0, 0))"
    using each assms(5,8,9,10) stepParticle_void_scenario by simp
  have "magnitude (load3 P (i * 3))
      = \<bar>30 - 0.996 * (0.0002 * (30.1 - 18)) * (30 / 30.1)\<bar>"
    using pv by (simp only: prod.inject magnitude_x_axis)
  then have mag: "magnitude (load3 P (i * 3)) < 30"
    by simp
  show ?thesis
    using res pv mag by simp
qed

theorem center_pull_scenario_witness:
  "\<exists>s'. updateParticles (calmEnv 1) (1 / 60) (restWorld [30, 0, 0] [0, 0, 0]) = Inr s'
           \<and> load3 (velocities s') 0 = (- (90387 / 37625000), 0, 0)
           \<and> load3 (positions s') 0 = (1128659613 / 37625000, 0, 0)
           \<and> magnitude (load3 (positions s') 0) < 30"
  using center_pull_scenario [of "restWorld [30, 0, 0] [0, 0, 0]" 0 "calmEnv 1"]
  by (simp add: restWorld_def calmEnv_def load3_def drawn3_def)

text \<open>
  The magnitude \<open>0.0002 * (30 - 18) / 30 = 0.00008\<close> is not what the single particle of
  the scenario gains: its velocity component is \<open>- 90387 / 37625000\<close>, which is off the
  stated value by more than the stated value itself.
\<close>

theorem center_pull_magnitude_counterexample:
  "\<exists>s'. updateParticles (calmEnv 1) (1 / 60) (restWorld [30, 0, 0] [0, 0, 0]) = Inr s'
      \<and> velocities s' ! 0 = - (90387 / 37625000)
      \<and> \<not> \<bar>\<bar>velocities s' ! 0\<bar> - 0.0002 * (30 - 18) / 30\<bar> \<le> 0.0002 * (30 - 18) / 30"
  by (simp add: updateParticles_def getActiveMode_def restWorld_def MODES_at_def MODES_def
      calmEnv_def updateParticle_def stepParticle_def void_def sqrt_900 BOUNDS_def
      mouseStrength_def load3_def store3_def blendStep_def drawn3_def)

section \<open>An uninterrupted transition\<close>

text \<open>
  C3. From a well-formed state whose blend fraction is 0, frames at a constant positive
  \<open>dt\<close> never fail; with \<open>tr n\<close> the state after \<open>n\<close> frames, every frame takes the
  fraction to the double nearest to \<open>fraction + dt * 0.5\<close>, clamped to 1, the fraction
  never decreases, for \<open>dt\<close> of at least \<open>1 / 2 ^ 20\<close> it is exactly 1 after
  \<open>ceil (2 / dt) + 1\<close> frames (and is below 1 only before it reached 1), and the frame on
  which it reaches 1 sets the settled mode index to the target mode index, which no
  frame changes.
\<close>

theorem blend_transition:
  assumes "wf_World E s" "0 < dt" "modeBlend s = 0"
  shows "\<exists>tr. tr 0 = s \<and> (\<forall>n. ticks E dt n s = Inr (tr n))
     \<and> (\<forall>n. modeBlend (tr (Suc n)) = min (toDouble (modeBlend (tr n) + dt * 0.5)) 1)
     \<and> (\<forall>n. modeBlend (tr n) \<le> modeBlend (tr (Suc n)))
     \<and> (1 / 2 ^ 20 \<le> dt \<longrightarrow> modeBlend (tr (nat \<lceil>2 / dt\<rceil> + 1)) = 1)
     \<and> (\<forall>n. modeBlend (tr n) < 1 \<and> modeBlend (tr (Suc n)) = 1
            \<longrightarrow> currentMode (tr (Suc n)) = targetMode (tr n))
     \<and> (\<forall>n. modeBlend (tr n) < 1 \<longrightarrow> currentMode (tr n) = currentMode s)
     \<and> (\<forall>n. targetMode (tr n) = targetMode s)"
proof -
  define tr where "tr n = projr (ticks E dt n s)" for n
  have dt: "0 \<le> dt" using assms(2) by simp
  have tr: "ticks E dt n s = Inr (tr n)
      \<and> modeBlend (tr n) = blendAfter dt n
      \<and> targetMode (tr n) = targetMode s
      \<and> currentMode (tr n) = (if 1 \<le> blendAfter dt n then targetMode s else currentMode s)"
    for n
    using ticks_blend [OF assms(1) dt assms(3), of n] by (auto simp add: tr_def)
  have a: "tr 0 = s" by (simp add: tr_def)
  have b: "modeBlend (tr (Suc n)) = min (toDouble (modeBlend (tr n) + dt * 0.5)) 1" for n
    using tr [of n] tr [of "Suc n"] blendAfter_step [OF dt, of n] by (simp only:)
  have c: "modeBlend (tr n) \<le> modeBlend (tr (Suc n))" for n
    using tr [of n] tr [of "Suc n"] blendAfter_mono [OF dt, of n] by (simp only:)
  have d: "1 / 2 ^ 20 \<le> dt \<longrightarrow> modeBlend (tr (nat \<lceil>2 / dt\<rceil> + 1)) = 1"
    using tr [of "nat \<lceil>2 / dt\<rceil> + 1"] blendAfter_reaches [of dt]
    by (auto simp del: blendAfter.simps)
  have e: "modeBlend (tr n) < 1 \<and> modeBlend (tr (Suc n)) = 1
            \<longrightarrow> currentMode (tr (Suc n)) = targetMode (tr n)" for n
  proof
    assume "modeBlend (tr n) < 1 \<and> modeBlend (tr (Suc n)) = 1"
    then have "1 \<le> blendAfter dt (Suc n)"
      using tr [of "Suc n"] by (auto simp del: blendAfter.simps)
    then have "currentMode (tr (Suc n)) = targetMode s"
      using tr [of "Suc n"] by (simp only: if_True)
    then show "currentMode (tr (Suc n)) = targetMode (tr n)" using tr [of n] by (simp only:)
  qed
  have f: "modeBlend (tr n) < 1 \<longrightarrow> currentMode (tr n) = currentMode s" for n
  proof
    assume "modeBlend (tr n) < 1"
    then have "\<not> 1 \<le> blendAfter dt n"
      using tr [of n] by (auto simp del: blendAfter.simps)
    then show "currentMode (tr n) = currentMode s" using tr [of n] by (simp only: if_False)
  qed
  show ?thesis
    using a tr b c d e f by blast
qed

theorem blend_transition_witness:
  "wf_World (calmEnv 1) ((restWorld [30, 0, 0] [0, 0, 0])\<lparr>targetMode := 2, modeBlend := 0\<rparr>)
     \<and> (\<exists>s'. ticks (calmEnv 1) (1 / 2) 5
                 ((restWorld [30, 0, 0] [0, 0, 0])\<lparr>targetMode := 2, modeBlend := 0\<rparr>) = Inr s'
            \<and> modeBlend s' = 1 \<and> targetMode s' = 2)"
proof -
  let ?s = "(restWorld [30, 0, 0] [0, 0, 0])\<lparr>targetMode := 2, modeBlend := 0\<rparr>"
  have wf: "wf_World (calmEnv 1) ?s"
    by (simp add: wf_World_def restWorld_def calmEnv_def newAmbientSound_def)
  have dt: "(0::real) < 1 / 2" by simp
  have b0: "modeBlend ?s = 0" by simp
  have n: "nat \<lceil>2 / (1 / 2 :: real)\<rceil> + 1 = 5" by simp
  have big: "(1::real) / 2 ^ 20 \<le> 1 / 2" by simp
  from blend_transition [OF wf dt b0] obtain tr where
    "\<forall>n. ticks (calmEnv 1) (1 / 2) n ?s = Inr (tr n)"
    "1 / 2 ^ 20 \<le> (1 / 2 :: real) \<longrightarrow> modeBlend (tr (nat \<lceil>2 / (1 / 2 :: real)\<rceil> + 1)) = 1"
    "\<forall>n. targetMode (tr n) = targetMode ?s"
    by blast
  then have "ticks (calmEnv 1) (1 / 2) 5 ?s = Inr (tr 5)
      \<and> modeBlend (tr 5) = 1 \<and> targetMode (tr 5) = 2"
    unfolding n using big by (simp add: restWorld_def)
  then show ?thesis using wf by blast
qed

text \<open>
  The bound \<open>ceil (2 / dt)\<close> is one frame short at the frame time \<open>dt = 0.025\<close>,
  the double \<open>3602879701896397 / 2 ^ 57\<close>: the eighty sums round to
  \<open>1 - 7 / 2 ^ 52\<close>, so after \<open>ceil (2 / dt) = 80\<close> frames the fraction is below 1 and the
  settled mode is still the old one.
\<close>

lemma blendAfter_frame_80:
  "blendAfter (3602879701896397 / 144115188075855872) 80
     = 4503599627370489 / 4503599627370496"
proof -
  define dt :: real where "dt = 3602879701896397 / 144115188075855872"
  have b0: "blendAfter dt 0 = 0" by simp
  have b1: "blendAfter dt 1 = 3602879701896397 / 288230376151711744"
    by (rule blendAfter_next [OF b0, where q = 59]) (simp_all add: dt_def roundHalfEven_def)
  have b2: "blendAfter dt 2 = 3602879701896397 / 144115188075855872"
    by (rule blendAfter_next [OF b1, where q = 58]) (simp_all add: dt_def roundHalfEven_def)
  have b3: "blendAfter dt 3 = 1351079888211149 / 36028797018963968"
    by (rule blendAfter_next [OF b2, where q = 57]) (simp_all add: dt_def roundHalfEven_def)
  have b4: "blendAfter dt 4 = 3602879701896397 / 72057594037927936"
    by (rule blendAfter_next [OF b3, where q = 57]) (simp_all add: dt_def roundHalfEven_def)
  have b5: "blendAfter dt 5 = 1 / 16"
    by (rule blendAfter_next [OF b4, where q = 56]) (simp_all add: dt_def roundHalfEven_def)
  have b6: "blendAfter dt 6 = 5404319552844595 / 72057594037927936"
    by (rule blendAfter_next [OF b5, where q = 56]) (simp_all add: dt_def roundHalfEven_def)
  have b7: "blendAfter dt 7 = 3152519739159347 / 36028797018963968"
    by (rule blendAfter_next [OF b6, where q = 56]) (simp_all add: dt_def roundHalfEven_def)
  have b8: "blendAfter dt 8 = 7205759403792793 / 72057594037927936"
    by (rule blendAfter_next [OF b7, where q = 56]) (simp_all add: dt_def roundHalfEven_def)
  have b9: "blendAfter dt 9 = 2026619832316723 / 18014398509481984"
    by (rule blendAfter_next [OF b8, where q = 56]) (simp_all add: dt_def roundHalfEven_def)
  have b10: "blendAfter dt 10 = 9007199254740991 / 72057594037927936"
    by (rule blendAfter_next [OF b9, where q = 56]) (simp_all add: dt_def roundHalfEven_def)
  have b11: "blendAfter dt 11 = 4953959590107545 / 36028797018963968"
    by (rule blendAfter_next [OF b10, where q = 55]) (simp_all add: dt_def roundHalfEven_def)
  have b12: "blendAfter dt 12 = 5404319552844595 / 36028797018963968"
    by (rule blendAfter_next [OF b11, where q = 55]) (simp_all add: dt_def roundHalfEven_def)
  have b13: "blendAfter dt 13 = 5854679515581645 / 36028797018963968"
    by (rule blendAfter_next [OF b12, where q = 55]) (simp_all add: dt_def roundHalfEven_def)
  have b14: "blendAfter dt 14 = 6305039478318695 / 36028797018963968"
    by (rule blendAfter_next [OF b13, where q = 55]) (simp_all add: dt_def roundHalfEven_def)
  have b15: "blendAfter dt 15 = 6755399441055745 / 36028797018963968"
    by (rule blendAfter_next [OF b14, where q = 55]) (simp_all add: dt_def roundHalfEven_def)
  have b16: "blendAfter dt 16 = 7205759403792795 / 36028797018963968"
    by (rule blendAfter_next [OF b15, where q = 55]) (simp_all add: dt_def roundHalfEven_def)
  have b17: "blendAfter dt 17 = 7656119366529845 / 36028797018963968"
    by (rule blendAfter_next [OF b16, where q = 55]) (simp_all add: dt_def roundHalfEven_def)
  have b18: "blendAfter dt 18 = 8106479329266895 / 36028797018963968"
    by (rule blendAfter_next [OF b17, where q = 55]) (simp_all add: dt_def roundHalfEven_def)
  have b19: "blendAfter dt 19 = 8556839292003945 / 36028797018963968"
    by (rule blendAfter_next [OF b18, where q = 55]) (simp_all add: dt_def roundHalfEven_def)
  have b20: "blendAfter dt 20 = 4503599627370497 / 18014398509481984"
    by (rule blendAfter_next [OF b19, where q = 54]) (simp_all add: dt_def roundHalfEven_def)
  have b21: "blendAfter dt 21 = 2364389804369511 / 9007199254740992"
    by (rule blendAfter_next [OF b20, where q = 54]) (simp_all add: dt_def roundHalfEven_def)
  have b22: "blendAfter dt 22 = 4953959590107547 / 18014398509481984"
    by (rule blendAfter_next [OF b21, where q = 54]) (simp_all add: dt_def roundHalfEven_def)
  have b23: "blendAfter dt 23 = 647392446434509 / 2251799813685248"
    by (rule blendAfter_next [OF b22, where q = 54]) (simp_all add: dt_def roundHalfEven_def)
  have b24: "blendAfter dt 24 = 5404319552844597 / 18014398509481984"
    by (rule blendAfter_next [OF b23, where q = 54]) (simp_all add: dt_def roundHalfEven_def)
  have b25: "blendAfter dt 25 = 2814749767106561 / 9007199254740992"
    by (rule blendAfter_next [OF b24, where q = 54]) (simp_all add: dt_def roundHalfEven_def)
  have b26: "blendAfter dt 26 = 5854679515581647 / 18014398509481984"
    by (rule blendAfter_next [OF b25, where q = 54]) (simp_all add: dt_def roundHalfEven_def)
  have b27: "blendAfter dt 27 = 1519964874237543 / 4503599627370496"
    by (rule blendAfter_next [OF b26, where q = 54]) (simp_all add: dt_def roundHalfEven_def)
  have b28: "blendAfter dt 28 = 6305039478318697 / 18014398509481984"
    by (rule blendAfter_next [OF b27, where q = 54]) (simp_all add: dt_def roundHalfEven_def)
  have b29: "blendAfter dt 29 = 3265109729843611 / 9007199254740992"
    by (rule blendAfter_next [OF b28, where q = 54]) (simp_all add: dt_def roundHalfEven_def)
  have b30: "blendAfter dt 30 = 6755399441055747 / 18014398509481984"
    by (rule blendAfter_next [OF b29, where q = 54]) (simp_all add: dt_def roundHalfEven_def)
  have b31: "blendAfter dt 31 = 436286213901517 / 1125899906842624"
    by (rule blendAfter_next [OF b30, where q = 54]) (simp_all add: dt_def roundHalfEven_def)
  have b32: "blendAfter dt 32 = 7205759403792797 / 18014398509481984"
    by (rule blendAfter_next [OF b31, where q = 54]) (simp_all add: dt_def roundHalfEven_def)
  have b33: "blendAfter dt 33 = 3715469692580661 / 9007199254740992"
    by (rule blendAfter_next [OF b32, where q = 54]) (simp_all add: dt_def roundHalfEven_def)
  have b34: "blendAfter dt 34 = 7656119366529847 / 18014398509481984"
    by (rule blendAfter_next [OF b33, where q = 54]) (simp_all add: dt_def roundHalfEven_def)
  have b35: "blendAfter dt 35 = 1970324836974593 / 4503599627370496"
    by (rule blendAfter_next [OF b34, where q = 54]) (simp_all add: dt_def roundHalfEven_def)
  have b36: "blendAfter dt 36 = 8106479329266897 / 18014398509481984"
    by (rule blendAfter_next [OF b35, where q = 54]) (simp_all add: dt_def roundHalfEven_def)
  have b37: "blendAfter dt 37 = 4165829655317711 / 9007199254740992"
    by (rule blendAfter_next [OF b36, where q = 54]) (simp_all add: dt_def roundHalfEven_def)
  have b38: "blendAfter dt 38 = 8556839292003947 / 18014398509481984"
    by (rule blendAfter_next [OF b37, where q = 54]) (simp_all add: dt_def roundHalfEven_def)
  have b39: "blendAfter dt 39 = 1097752409171559 / 2251799813685248"
    by (rule blendAfter_next [OF b38, where q = 54]) (simp_all add: dt_def roundHalfEven_def)
  have b40: "blendAfter dt 40 = 2251799813685249 / 4503599627370496"
    by (rule blendAfter_next [OF b39, where q = 53]) (simp_all add: dt_def roundHalfEven_def)
  have b41: "blendAfter dt 41 = 577023702256845 / 1125899906842624"
    by (rule blendAfter_next [OF b40, where q = 53]) (simp_all add: dt_def roundHalfEven_def)
  have b42: "blendAfter dt 42 = 2364389804369511 / 4503599627370496"
    by (rule blendAfter_next [OF b41, where q = 53]) (simp_all add: dt_def roundHalfEven_def)
  have b43: "blendAfter dt 43 = 1210342399855821 / 2251799813685248"
    by (rule blendAfter_next [OF b42, where q = 53]) (simp_all add: dt_def roundHalfEven_def)
  have b44: "blendAfter dt 44 = 2476979795053773 / 4503599627370496"
    by (rule blendAfter_next [OF b43, where q = 53]) (simp_all add: dt_def roundHalfEven_def)
  have b45: "blendAfter dt 45 = 9 / 16"
    by (rule blendAfter_next [OF b44, where q = 53]) (simp_all add: dt_def roundHalfEven_def)
  have b46: "blendAfter dt 46 = 2589569785738035 / 4503599627370496"
    by (rule blendAfter_next [OF b45, where q = 53]) (simp_all add: dt_def roundHalfEven_def)
  have b47: "blendAfter dt 47 = 1322932390540083 / 2251799813685248"
    by (rule blendAfter_next [OF b46, where q = 53]) (simp_all add: dt_def roundHalfEven_def)
  have b48: "blendAfter dt 48 = 2702159776422297 / 4503599627370496"
    by (rule blendAfter_next [OF b47, where q = 53]) (simp_all add: dt_def roundHalfEven_def)
  have b49: "blendAfter dt 49 = 689613692941107 / 1125899906842624"
    by (rule blendAfter_next [OF b48, where q = 53]) (simp_all add: dt_def roundHalfEven_def)
  have b50: "blendAfter dt 50 = 2814749767106559 / 4503599627370496"
    by (rule blendAfter_next [OF b49, where q = 53]) (simp_all add: dt_def roundHalfEven_def)
  have b51: "blendAfter dt 51 = 1435522381224345 / 2251799813685248"
    by (rule blendAfter_next [OF b50, where q = 53]) (simp_all add: dt_def roundHalfEven_def)
  have b52: "blendAfter dt 52 = 2927339757790821 / 4503599627370496"
    by (rule blendAfter_next [OF b51, where q = 53]) (simp_all add: dt_def roundHalfEven_def)
  have b53: "blendAfter dt 53 = 372954344141619 / 562949953421312"
    by (rule blendAfter_next [OF b52, where q = 53]) (simp_all add: dt_def roundHalfEven_def)
  have b54: "blendAfter dt 54 = 3039929748475083 / 4503599627370496"
    by (rule blendAfter_next [OF b53, where q = 53]) (simp_all add: dt_def roundHalfEven_def)
  have b55: "blendAfter dt 55 = 1548112371908607 / 2251799813685248"
    by (rule blendAfter_next [OF b54, where q = 53]) (simp_all add: dt_def roundHalfEven_def)
  have b56: "blendAfter dt 56 = 3152519739159345 / 4503599627370496"
    by (rule blendAfter_next [OF b55, where q = 53]) (simp_all add: dt_def roundHalfEven_def)
  have b57: "blendAfter dt 57 = 802203683625369 / 1125899906842624"
    by (rule blendAfter_next [OF b56, where q = 53]) (simp_all add: dt_def roundHalfEven_def)
  have b58: "blendAfter dt 58 = 3265109729843607 / 4503599627370496"
    by (rule blendAfter_next [OF b57, where q = 53]) (simp_all add: dt_def roundHalfEven_def)
  have b59: "blendAfter dt 59 = 1660702362592869 / 2251799813685248"
    by (rule blendAfter_next [OF b58, where q = 53]) (simp_all add: dt_def roundHalfEven_def)
  have b60: "blendAfter dt 60 = 3377699720527869 / 4503599627370496"
    by (rule blendAfter_next [OF b59, where q = 53]) (simp_all add: dt_def roundHalfEven_def)
  have b61: "blendAfter dt 61 = 214624669741875 / 281474976710656"
    by (rule blendAfter_next [OF b60, where q = 53]) (simp_all add: dt_def roundHalfEven_def)
  have b62: "blendAfter dt 62 = 3490289711212131 / 4503599627370496"
    by (rule blendAfter_next [OF b61, where q = 53]) (simp_all add: dt_def roundHalfEven_def)
  have b63: "blendAfter dt 63 = 1773292353277131 / 2251799813685248"
    by (rule blendAfter_next [OF b62, where q = 53]) (simp_all add: dt_def roundHalfEven_def)
  have b64: "blendAfter dt 64 = 3602879701896393 / 4503599627370496"
    by (rule blendAfter_next [OF b63, where q = 53]) (simp_all add: dt_def roundHalfEven_def)
  have b65: "blendAfter dt 65 = 914793674309631 / 1125899906842624"
    by (rule blendAfter_next [OF b64, where q = 53]) (simp_all add: dt_def roundHalfEven_def)
  have b66: "blendAfter dt 66 = 3715469692580655 / 4503599627370496"
    by (rule blendAfter_next [OF b65, where q = 53]) (simp_all add: dt_def roundHalfEven_def)
  have b67: "blendAfter dt 67 = 1885882343961393 / 2251799813685248"
    by (rule blendAfter_next [OF b66, where q = 53]) (simp_all add: dt_def roundHalfEven_def)
  have b68: "blendAfter dt 68 = 3828059683264917 / 4503599627370496"
    by (rule blendAfter_next [OF b67, where q = 53]) (simp_all add: dt_def roundHalfEven_def)
  have b69: "blendAfter dt 69 = 485544334825881 / 562949953421312"
    by (rule blendAfter_next [OF b68, where q = 53]) (simp_all add: dt_def roundHalfEven_def)
  have b70: "blendAfter dt 70 = 3940649673949179 / 4503599627370496"
    by (rule blendAfter_next [OF b69, where q = 53]) (simp_all add: dt_def roundHalfEven_def)
  have b71: "blendAfter dt 71 = 1998472334645655 / 2251799813685248"
    by (rule blendAfter_next [OF b70, where q = 53]) (simp_all add: dt_def roundHalfEven_def)
  have b72: "blendAfter dt 72 = 4053239664633441 / 4503599627370496"
    by (rule blendAfter_next [OF b71, where q = 53]) (simp_all add: dt_def roundHalfEven_def)
  have b73: "blendAfter dt 73 = 1027383664993893 / 1125899906842624"
    by (rule blendAfter_next [OF b72, where q = 53]) (simp_all add: dt_def roundHalfEven_def)
  have b74: "blendAfter dt 74 = 4165829655317703 / 4503599627370496"
    by (rule blendAfter_next [OF b73, where q = 53]) (simp_all add: dt_def roundHalfEven_def)
  have b75: "blendAfter dt 75 = 2111062325329917 / 2251799813685248"
    by (rule blendAfter_next [OF b74, where q = 53]) (simp_all add: dt_def roundHalfEven_def)
  have b76: "blendAfter dt 76 = 4278419646001965 / 4503599627370496"
    by (rule blendAfter_next [OF b75, where q = 53]) (simp_all add: dt_def roundHalfEven_def)
  have b77: "blendAfter dt 77 = 135459832542003 / 140737488355328"
    by (rule blendAfter_next [OF b76, where q = 53]) (simp_all add: dt_def roundHalfEven_def)
  have b78: "blendAfter dt 78 = 4391009636686227 / 4503599627370496"
    by (rule blendAfter_next [OF b77, where q = 53]) (simp_all add: dt_def roundHalfEven_def)
  have b79: "blendAfter dt 79 = 2223652316014179 / 2251799813685248"
    by (rule blendAfter_next [OF b78, where q = 53]) (simp_all add: dt_def roundHalfEven_def)
  have b80: "blendAfter dt 80 = 4503599627370489 / 4503599627370496"
    by (rule blendAfter_next [OF b79, where q = 53]) (simp_all add: dt_def roundHalfEven_def)
  show ?thesis using b80 by (simp only: dt_def)
qed

theorem blend_transition_counterexample:
  "\<exists>s'. wf_World (calmEnv 1) ((restWorld [30, 0, 0] [0, 0, 0])\<lparr>targetMode := 2, modeBlend := 0\<rparr>)
      \<and> nat \<lceil>2 / (3602879701896397 / 144115188075855872 :: real)\<rceil> = 80
      \<and> ticks (calmEnv 1) (3602879701896397 / 144115188075855872)
           (nat \<lceil>2 / (3602879701896397 / 144115188075855872 :: real)\<rceil>)
           ((restWorld [30, 0, 0] [0, 0, 0])\<lparr>targetMode := 2, modeBlend := 0\<rparr>) = Inr s'
      \<and> modeBlend s' = 4503599627370489 / 4503599627370496
      \<and> modeBlend s' < 1 \<and> currentMode s' = 4 \<and> targetMode s' = 2"
proof -
  let ?s = "(restWorld [30, 0, 0] [0, 0, 0])\<lparr>targetMode := 2, modeBlend := 0\<rparr>"
  let ?dt = "3602879701896397 / 144115188075855872 :: real"
  have wf: "wf_World (calmEnv 1) ?s"
    by (simp add: wf_World_def restWorld_def calmEnv_def newAmbientSound_def)
  have n: "nat \<lceil>2 / ?dt\<rceil> = 80" by simp
  have dt: "0 \<le> ?dt" by simp
  have b0: "modeBlend ?s = 0" by simp
  from ticks_blend [OF wf dt b0, of 80] obtain s' where
    "ticks (calmEnv 1) ?dt 80 ?s = Inr s'"
    "modeBlend s' = blendAfter ?dt 80" "targetMode s' = targetMode ?s"
    "currentMode s' = (if 1 \<le> blendAfter ?dt 80 then targetMode ?s else currentMode ?s)"
    by blast
  then have "ticks (calmEnv 1) ?dt 80 ?s = Inr s'
      \<and> modeBlend s' = 4503599627370489 / 4503599627370496
      \<and> modeBlend s' < 1 \<and> currentMode s' = 4 \<and> targetMode s' = 2"
    unfolding blendAfter_frame_80 by (simp add: restWorld_def)
  then show ?thesis unfolding n using wf by blast
qed

section \<open>Transition requests\<close>

text \<open>
  C4. For a valid mode index, in a well-formed state with at least one particle:
  \<open>setMode\<close> returns the state unchanged exactly when the index is the settled mode and
  the blend fraction is at least 1. Otherwise it succeeds with blend fraction 0 and the
  index as target, the settled mode as it was, and for every particle \<open>i\<close> a target
  colour and a target size made from the next four draws of the random sequence, which
  it consumes: with \<open>k = draws s + 4 * i\<close>, the colour is \<open>setHSL\<close> of the hue
  \<open>lo + random k * (hi - lo)\<close> in the hue range, the saturation from draw \<open>k + 1\<close> in the
  saturation range and the lightness from draw \<open>k + 2\<close> in the lightness range, and the
  size is \<open>lo + random (k + 3) * (hi - lo)\<close> in the size range, the ranges being those of
  the mode of the index, the first two narrowed by a colour override. The same result
  comes out whatever target index and fraction (one that does not make the request a
  no-op) the state had before.
\<close>

theorem transition_request:
  assumes "wf_World E s" "0 \<le> index" "index < int (length MODES)" "0 < COUNT E"
  shows "(setMode E index s = Inr s \<longleftrightarrow> index = currentMode s \<and> 1 \<le> modeBlend s)
    \<and> (\<not> (index = currentMode s \<and> 1 \<le> modeBlend s) \<longrightarrow>
         (\<exists>s' m hr sr. setMode E index s = Inr s' \<and> MODES_at index = Some m
            \<and> modeBlend s' = 0 \<and> targetMode s' = index \<and> currentMode s' = currentMode s
            \<and> hr = (case colorOverride s of None \<Rightarrow> hueRange m
                       | Some h \<Rightarrow> (h - 0.06, h + 0.06))
            \<and> sr = (case colorOverride s of None \<Rightarrow> satRange m
                       | Some h \<Rightarrow> (max (fst (satRange m)) 0.5, max (snd (satRange m)) 0.9))
            \<and> (\<forall>i < COUNT E.
                 load3 (targetColors s') (i * 3)
                   = setHSL E (fst hr + random E (draws s + 4 * i) * (snd hr - fst hr))
                       (fst sr + random E (draws s + 4 * i + 1) * (snd sr - fst sr))
                       (fst (lightRange m) + random E (draws s + 4 * i + 2)
                          * (snd (lightRange m) - fst (lightRange m)))
                 \<and> targetSizes s' ! i
                   = fst (sizeRange m) + random E (draws s + 4 * i + 3)
                       * (snd (sizeRange m) - fst (sizeRange m)))
            \<and> draws s + 4 * COUNT E \<le> draws s'
            \<and> (\<forall>t b. \<not> (index = currentMode s \<and> 1 \<le> b) \<longrightarrow>
                  setMode E index (s\<lparr>targetMode := t, modeBlend := b\<rparr>) = Inr s')))"
proof (cases "index = currentMode s \<and> 1 \<le> modeBlend s")
  case True
  then show ?thesis using assms(2,3) by (simp add: setMode_def)
next
  case False
  from setMode_result [OF assms(1,2,3) False] obtain m C S T k' a' where
    m: "MODES_at index = Some m"
    and r: "setMode E index s
               = Inr (s\<lparr>targetMode := index, modeBlend := 0, audio := a',
                        targetColors := C, targetSizes := S, tmpColor := T, draws := k'\<rparr>)"
    and k': "draws s + 4 * COUNT E \<le> k'"
    and each: "\<forall>i < COUNT E. load3 C (i * 3)
                   = toRGB E (sampleHSL E m (getHueRange s m) (getSatRange s m) (draws s + 4 * i))
                 \<and> S ! i = sampleSize E m (draws s + 4 * i + 3)"
    by blast
  let ?s' = "s\<lparr>targetMode := index, modeBlend := 0, audio := a',
               targetColors := C, targetSizes := S, tmpColor := T, draws := k'\<rparr>"
  let ?hr = "case colorOverride s of None \<Rightarrow> hueRange m | Some h \<Rightarrow> (h - 0.06, h + 0.06)"
  let ?sr = "case colorOverride s of None \<Rightarrow> satRange m
             | Some h \<Rightarrow> (max (fst (satRange m)) 0.5, max (snd (satRange m)) 0.9)"
  have "draws ?s' \<noteq> draws s" using k' assms(4) by simp
  then have ne: "?s' \<noteq> s" by metis
  have same: "setMode E index (s\<lparr>targetMode := t, modeBlend := b\<rparr>) = Inr ?s'"
    if "\<not> (index = currentMode s \<and> 1 \<le> b)" for t b
  proof -
    have "setMode E index (s\<lparr>targetMode := t, modeBlend := b\<rparr>) = setMode E index s"
      using that False assms(2,3) by (auto simp add: setMode_def)
    then show ?thesis using r by simp
  qed
  have each': "\<forall>i < COUNT E.
                 load3 (targetColors ?s') (i * 3)
                   = setHSL E (fst ?hr + random E (draws s + 4 * i) * (snd ?hr - fst ?hr))
                       (fst ?sr + random E (draws s + 4 * i + 1) * (snd ?sr - fst ?sr))
                       (fst (lightRange m) + random E (draws s + 4 * i + 2)
                          * (snd (lightRange m) - fst (lightRange m)))
                 \<and> targetSizes ?s' ! i
                   = fst (sizeRange m) + random E (draws s + 4 * i + 3)
                       * (snd (sizeRange m) - fst (sizeRange m))"
    using each
    by (simp add: toRGB_def sampleHSL_def sampleSize_def getHueRange_def getSatRange_def Let_def)
  have "\<exists>s' m hr sr. setMode E index s = Inr s' \<and> MODES_at index = Some m
            \<and> modeBlend s' = 0 \<and> targetMode s' = index \<and> currentMode s' = currentMode s
            \<and> hr = (case colorOverride s of None \<Rightarrow> hueRange m
                       | Some h \<Rightarrow> (h - 0.06, h + 0.06))
            \<and> sr = (case colorOverride s of None \<Rightarrow> satRange m
                       | Some h \<Rightarrow> (max (fst (satRange m)) 0.5, max (snd (satRange m)) 0.9))
            \<and> (\<forall>i < COUNT E.
                 load3 (targetColors s') (i * 3)
                   = setHSL E (fst hr + random E (draws s + 4 * i) * (snd hr - fst hr))
                       (fst sr + random E (draws s + 4 * i + 1) * (snd sr - fst sr))
                       (fst (lightRange m) + random E (draws s + 4 * i + 2)
                          * (snd (lightRange m) - fst (lightRange m)))
                 \<and> targetSizes s' ! i
                   = fst (sizeRange m) + random E (draws s + 4 * i + 3)
                       * (snd (sizeRange m) - fst (sizeRange m)))
            \<and> draws s + 4 * COUNT E \<le> draws s'
            \<and> (\<forall>t b. \<not> (index = currentMode s \<and> 1 \<le> b) \<longrightarrow>
                  setMode E index (s\<lparr>targetMode := t, modeBlend := b\<rparr>) = Inr s')"
    apply (rule exI [of _ ?s'], rule exI [of _ m], rule exI [of _ ?hr], rule exI [of _ ?sr])
    apply (intro conjI)
    using r m each' same k' by simp_all
  then show ?thesis using False r ne by simp
qed

theorem transition_request_witness:
  "wf_World (rampEnv 2) (restWorld [30, 0, 0, 0, 0, 0] [0, 0, 0, 0, 0, 0])
     \<and> (\<exists>s'. setMode (rampEnv 2) 2 (restWorld [30, 0, 0, 0, 0, 0] [0, 0, 0, 0, 0, 0]) = Inr s'
           \<and> s' \<noteq> restWorld [30, 0, 0, 0, 0, 0] [0, 0, 0, 0, 0, 0]
           \<and> modeBlend s' = 0 \<and> targetMode s' = 2 \<and> currentMode s' = 4
           \<and> load3 (targetColors s') 0 = (0.4, 11 / 15, 0.4) \<and> targetSizes s' ! 0 = 0.68
           \<and> load3 (targetColors s') 3 = (0.32, 23 / 35, 0.35)
           \<and> targetSizes s' ! 1 = 23 / 45)"
proof -
  let ?s = "restWorld [30, 0, 0, 0, 0, 0] [0, 0, 0, 0, 0, 0]"
  have wf: "wf_World (rampEnv 2) ?s"
    by (simp add: wf_World_def restWorld_def rampEnv_def newAmbientSound_def)
  have i: "(0::int) \<le> 2" "2 < int (length MODES)" "0 < COUNT (rampEnv 2)"
    by (simp_all add: MODES_def rampEnv_def)
  have n: "\<not> (2 = currentMode ?s \<and> 1 \<le> modeBlend ?s)" by (simp add: restWorld_def)
  have m: "MODES_at 2 = Some aurora" by (simp add: MODES_at_def MODES_def)
  have c: "colorOverride ?s = None" "draws ?s = 0" "currentMode ?s = 4"
    by (simp_all add: restWorld_def)
  from transition_request [OF wf i] n m obtain s' where
    s': "setMode (rampEnv 2) 2 ?s = Inr s'" "s' \<noteq> ?s" "modeBlend s' = 0" "targetMode s' = 2"
    "currentMode s' = currentMode ?s"
    and each: "\<forall>i < COUNT (rampEnv 2).
        load3 (targetColors s') (i * 3)
          = setHSL (rampEnv 2)
              (fst (hueRange aurora) + random (rampEnv 2) (draws ?s + 4 * i)
                 * (snd (hueRange aurora) - fst (hueRange aurora)))
              (fst (satRange aurora) + random (rampEnv 2) (draws ?s + 4 * i + 1)
                 * (snd (satRange aurora) - fst (satRange aurora)))
              (fst (lightRange aurora) + random (rampEnv 2) (draws ?s + 4 * i + 2)
                 * (snd (lightRange aurora) - fst (lightRange aurora)))
        \<and> targetSizes s' ! i
          = fst (sizeRange aurora) + random (rampEnv 2) (draws ?s + 4 * i + 3)
              * (snd (sizeRange aurora) - fst (sizeRange aurora))"
    unfolding c by auto
  have "load3 (targetColors s') 0 = (0.4, 11 / 15, 0.4) \<and> targetSizes s' ! 0 = 0.68"
    using each [rule_format, of 0] unfolding c by (simp add: rampEnv_def aurora_def)
  moreover have "load3 (targetColors s') 3 = (0.32, 23 / 35, 0.35) \<and> targetSizes s' ! 1 = 23 / 45"
    using each [rule_format, of 1] unfolding c by (simp add: rampEnv_def aurora_def)
  ultimately show ?thesis using wf s' c(3) by auto
qed

section \<open>Decay to rest\<close>



section \<open>Colour override\<close>

text \<open>
  C6. With \<^verbatim>\<open>Math.random()\<close> in \<open>[0, 1)\<close> and a colour override \<open>h\<close> in force, every
  target colour written by a transition request that is not a no-op, and every target
  colour written by a colour pick of \<open>h\<close>, is the conversion \<^verbatim>\<open>setHSL\<close> of a hue within
  \<open>[h - 0.06, h + 0.06]\<close> and a saturation of at least \<open>0.5\<close>.
\<close>

theorem override_containment:
  assumes "wf_World E s" "\<forall>n. 0 \<le> random E n \<and> random E n < 1" "i < COUNT E"
  shows "(colorOverride s = Some h \<and> 0 \<le> index \<and> index < int (length MODES)
            \<and> \<not> (index = currentMode s \<and> 1 \<le> modeBlend s) \<longrightarrow>
          (\<exists>s' hue sat light. setMode E index s = Inr s'
             \<and> load3 (targetColors s') (i * 3) = setHSL E hue sat light
             \<and> h - 0.06 \<le> hue \<and> hue \<le> h + 0.06 \<and> 0.5 \<le> sat))
       \<and> (\<exists>s' hue sat light. pickColor E (Some h) s = Inr s'
             \<and> load3 (targetColors s') (i * 3) = setHSL E hue sat light
             \<and> h - 0.06 \<le> hue \<and> hue \<le> h + 0.06 \<and> 0.5 \<le> sat)"
proof -
  have rnd: "0 \<le> random E k" "random E k < 1" for k using assms(2) by simp_all
  have a: "\<exists>s' hue sat light. setMode E index s = Inr s'
             \<and> load3 (targetColors s') (i * 3) = setHSL E hue sat light
             \<and> h - 0.06 \<le> hue \<and> hue \<le> h + 0.06 \<and> 0.5 \<le> sat"
    if ov: "colorOverride s = Some h" and idx: "0 \<le> index" "index < int (length MODES)"
      and n: "\<not> (index = currentMode s \<and> 1 \<le> modeBlend s)"
  proof -
    from setMode_result [OF assms(1) idx n] obtain m C S T k' a' where
      r: "setMode E index s
               = Inr (s\<lparr>targetMode := index, modeBlend := 0, audio := a',
                        targetColors := C, targetSizes := S, tmpColor := T, draws := k'\<rparr>)"
      and each: "\<forall>i < COUNT E. load3 C (i * 3)
                   = toRGB E (sampleHSL E m (getHueRange s m) (getSatRange s m) (draws s + 4 * i))
                 \<and> S ! i = sampleSize E m (draws s + 4 * i + 3)"
      by blast
    from sampleHSL_override [of E "draws s + 4 * i" s h m] rnd ov obtain hue sat light where
      hsl: "sampleHSL E m (getHueRange s m) (getSatRange s m) (draws s + 4 * i) = (hue, sat, light)"
      and band: "h - 0.06 \<le> hue" "hue \<le> h + 0.06" "0.5 \<le> sat" by blast
    have "load3 C (i * 3) = setHSL E hue sat light"
      using each assms(3) hsl by (simp add: toRGB_def)
    then show ?thesis using r band by auto
  qed
  have b: "\<exists>s' hue sat light. pickColor E (Some h) s = Inr s'
             \<and> load3 (targetColors s') (i * 3) = setHSL E hue sat light
             \<and> h - 0.06 \<le> hue \<and> hue \<le> h + 0.06 \<and> 0.5 \<le> sat"
  proof -
    let ?s = "s\<lparr>colorOverride := Some h\<rparr>"
    have wf: "wf_World E ?s" using assms(1) by (simp add: wf_World_def)
    have ov: "colorOverride ?s = Some h" by simp
    from triggerColorTransition_result [OF wf] obtain m s' where
      r: "triggerColorTransition E ?s = Inr s'"
      and each: "\<forall>i < COUNT E. load3 (targetColors s') (i * 3)
                   = toRGB E (sampleHSL E m (getHueRange ?s m) (getSatRange ?s m) (draws ?s + 4 * i))
                 \<and> targetSizes s' ! i = sampleSize E m (draws ?s + 4 * i + 3)"
      by blast
    from sampleHSL_override [of E "draws ?s + 4 * i" ?s h m] rnd ov obtain hue sat light where
      hsl: "sampleHSL E m (getHueRange ?s m) (getSatRange ?s m) (draws ?s + 4 * i)
              = (hue, sat, light)"
      and band: "h - 0.06 \<le> hue" "hue \<le> h + 0.06" "0.5 \<le> sat" by blast
    have "load3 (targetColors s') (i * 3) = setHSL E hue sat light"
      using each assms(3) hsl by (simp add: toRGB_def)
    then show ?thesis using r band unfolding pickColor_def by blast
  qed
  show ?thesis using a b by blast
qed

theorem override_containment_witness:
  "(\<forall>n. 0 \<le> random (calmEnv 1) n \<and> random (calmEnv 1) n < 1)
     \<and> (\<exists>s' hue sat light.
           setMode (calmEnv 1) 2 ((restWorld [30, 0, 0] [0, 0, 0])\<lparr>colorOverride := Some 0.3\<rparr>)
             = Inr s'
           \<and> load3 (targetColors s') 0 = setHSL (calmEnv 1) hue sat light
           \<and> 0.3 - 0.06 \<le> hue \<and> hue \<le> 0.3 + 0.06 \<and> 0.5 \<le> sat)
     \<and> (\<exists>s' hue sat light.
           pickColor (calmEnv 1) (Some 0.3)
               ((restWorld [30, 0, 0] [0, 0, 0])\<lparr>colorOverride := Some 0.3\<rparr>) = Inr s'
           \<and> load3 (targetColors s') 0 = setHSL (calmEnv 1) hue sat light
           \<and> 0.3 - 0.06 \<le> hue \<and> hue \<le> 0.3 + 0.06 \<and> 0.5 \<le> sat)"
proof -
  let ?s = "(restWorld [30, 0, 0] [0, 0, 0])\<lparr>colorOverride := Some 0.3\<rparr>"
  have wf: "wf_World (calmEnv 1) ?s"
    by (simp add: wf_World_def restWorld_def calmEnv_def newAmbientSound_def)
  have rnd: "\<forall>n. 0 \<le> random (calmEnv 1) n \<and> random (calmEnv 1) n < 1"
    by (simp add: calmEnv_def)
  have i: "0 < COUNT (calmEnv 1)" by (simp add: calmEnv_def)
  have pre: "colorOverride ?s = Some 0.3 \<and> (0::int) \<le> 2 \<and> 2 < int (length MODES)
      \<and> \<not> (2 = currentMode ?s \<and> 1 \<le> modeBlend ?s)"
    by (simp add: restWorld_def MODES_def)
  from override_containment [OF wf rnd i, of "0.3" 2] pre rnd
  show ?thesis by simp
qed

section \<open>Click burst\<close>

lemma sqrt_36: "sqrt 36 = 6"
  by (rule real_sqrt_unique) simp_all

text \<open>
  C7. A burst at \<open>(wx, wy)\<close> has radius 12 and force 3, or \<open>- 3\<close> when pushing. A
  particle whose squared distance \<open>distSq\<close> from the burst point is below the squared
  radius gets \<open>strength = (1 - distSq / radius\<^sup>2) * force\<close>, positive when not pushing and
  negative when pushing, and its velocity grows by \<open>(dx / dist) * strength\<close> and
  \<open>(dy / dist) * strength\<close> with \<open>dist = sqrt distSq + 0.5\<close>, and on the depth axis by
  \<open>(r - 0.5) * \<bar>strength\<bar> * 0.3\<close> for its own random draw \<open>r\<close>. The call ends with one
  call of the impact cue on the engine as it was: two sources more (thump and whoosh)
  when the engine is built and enabled, none otherwise, whatever the particles are.
\<close>

theorem burst_impulse:
  assumes "COUNT E * 3 \<le> length (velocities s)" "i < COUNT E"
  shows "let s' = burstAt E wx wy push s;
             radius = 12;
             dx = positions s ! (i * 3) - wx; dy = positions s ! (i * 3 + 1) - wy;
             distSq = dx * dx + dy * dy;
             strength = (1 - distSq / (radius * radius)) * (if push then - 3 else 3);
             dist = sqrt distSq + 0.5;
             jitter = random E (draws s + burstHits wx wy (radius * radius) (positions s) i) - 0.5
         in (distSq < radius * radius \<longrightarrow>
               load3 (velocities s') (i * 3)
                 = (velocities s ! (i * 3) + (dx / dist) * strength,
                    velocities s ! (i * 3 + 1) + (dy / dist) * strength,
                    velocities s ! (i * 3 + 2) + jitter * \<bar>strength\<bar> * 0.3)
               \<and> (if push then strength < 0 else 0 < strength) \<and> 0 < dist)
          \<and> (draws s', audio s')
                = triggerBurst (random E)
                    (draws s + burstHits wx wy (radius * radius) (positions s) (COUNT E), audio s)
          \<and> length (cues (audio s'))
                = length (cues (audio s)) + (if ctx (audio s) \<noteq> None \<and> enabled (audio s) then 2 else 0)"
proof -
  let ?dx = "positions s ! (i * 3) - wx" and ?dy = "positions s ! (i * 3 + 1) - wy"
  let ?distSq = "?dx * ?dx + ?dy * ?dy"
  let ?strength = "(1 - ?distSq / (12 * 12)) * (if push then - 3 else 3)"
  let ?dist = "sqrt ?distSq + 0.5"
  let ?ka = "triggerBurst (random E)
               (draws s + burstHits wx wy (12 * 12) (positions s) (COUNT E), audio s)"
  from burstAt_result [OF assms(1), of wx wy push] assms(2) obtain V where
    r: "burstAt E wx wy push s = s\<lparr>velocities := V, audio := snd ?ka, draws := fst ?ka\<rparr>"
    and each: "load3 V (i * 3)
                 = (if ?distSq < 12 * 12 then
                      (velocities s ! (i * 3) + (?dx / ?dist) * ?strength,
                       velocities s ! (i * 3 + 1) + (?dy / ?dist) * ?strength,
                       velocities s ! (i * 3 + 2)
                         + (random E (draws s + burstHits wx wy (12 * 12) (positions s) i) - 0.5)
                           * \<bar>?strength\<bar> * 0.3)
                    else load3 (velocities s) (i * 3))"
    unfolding Let_def by blast
  have sign: "(if push then ?strength < 0 else 0 < ?strength)" if "?distSq < 12 * 12"
  proof -
    have "?distSq / (12 * 12) < 1" using that by simp
    then have "0 < 1 - ?distSq / (12 * 12)" by simp
    then show ?thesis by (simp add: mult_pos_neg mult_pos_pos)
  qed
  have "0 \<le> sqrt ?distSq" by simp
  then have dist: "0 < ?dist" by linarith
  have a: "?distSq < 12 * 12 \<longrightarrow>
               load3 (velocities (burstAt E wx wy push s)) (i * 3)
                 = (velocities s ! (i * 3) + (?dx / ?dist) * ?strength,
                    velocities s ! (i * 3 + 1) + (?dy / ?dist) * ?strength,
                    velocities s ! (i * 3 + 2)
                      + (random E (draws s + burstHits wx wy (12 * 12) (positions s) i) - 0.5)
                        * \<bar>?strength\<bar> * 0.3)
               \<and> (if push then ?strength < 0 else 0 < ?strength) \<and> 0 < ?dist"
    using each sign dist unfolding r by simp
  have b: "(draws (burstAt E wx wy push s), audio (burstAt E wx wy push s)) = ?ka"
    unfolding r by simp
  have c: "length (cues (audio (burstAt E wx wy push s)))
             = length (cues (audio s)) + (if ctx (audio s) \<noteq> None \<and> enabled (audio s) then 2 else 0)"
    unfolding r using cues_triggerBurst [of "random E" _ "audio s"] by simp
  show ?thesis
    unfolding Let_def using a b c by blast
qed

theorem burst_impulse_witness:
  "load3 (velocities (burstAt (calmEnv 2) 0 0 False clickWorld)) 0
       = (6 / 6.5 * 2.25, 0, 0)
     \<and> (1 - 36 / (12 * 12)) * 3 = (2.25::real)
     \<and> length (cues (audio (burstAt (calmEnv 2) 0 0 False clickWorld))) = 2"
proof -
  have len: "COUNT (calmEnv 2) * 3 \<le> length (velocities clickWorld)"
    "0 < COUNT (calmEnv 2)"
    by (simp_all add: calmEnv_def clickWorld_def restWorld_def)
  from burst_impulse [OF len, of 0 0 False]
  show ?thesis
    by (simp add: Let_def clickWorld_def restWorld_def calmEnv_def liveSound_def mutedSound_def
        sqrt_36)
qed

section \<open>Invalid mode indices\<close>

text \<open>
  C8. For every integer index outside the range of the mode table, \<open>setMode\<close> returns
  the state it was given: settled and target mode, blend fraction, every buffer and the
  sound engine (so no cue) are the same, and nothing is raised.
\<close>

theorem setMode_invalid_index:
  assumes "index < 0 \<or> int (length MODES) \<le> index"
  shows "setMode E index s = Inr s"
  using assms by (auto simp add: setMode_def)

theorem setMode_invalid_index_witness:
  "int (length MODES) \<le> 7
     \<and> setMode (calmEnv 1) 7 (restWorld [30, 0, 0] [0, 0, 0])
         = Inr (restWorld [30, 0, 0] [0, 0, 0])"
  using setMode_invalid_index [of 7 "calmEnv 1" "restWorld [30, 0, 0] [0, 0, 0]"]
  by (simp add: MODES_def)

section \<open>The sound engine when it is off\<close>

text \<open>
  C9. When the audio graph has not been built or the engine is not enabled, the burst cue
  and the colour cue return the engine and the random sequence as they were, and the mode
  change only records the index: no ramp on the drones, no sweep, no draw, no error.
\<close>

theorem silent_engine_ignores_cues:
  assumes "ctx a = None \<or> \<not> enabled a"
  shows "triggerBurst rnd (k, a) = (k, a)
       \<and> triggerColorChange rnd (k, a) = (k, a)
       \<and> soundSetMode rnd index (k, a) = Inr (k, a\<lparr>soundMode := index\<rparr>)"
  using assms
  by (auto simp add: triggerBurst_def triggerColorChange_def soundSetMode_def Let_def
      split: option.splits)

theorem silent_engine_ignores_cues_witness:
  "triggerBurst (\<lambda>n. 1 / 2) (0, mutedSound) = (0, mutedSound)
     \<and> triggerColorChange (\<lambda>n. 1 / 2) (0, mutedSound) = (0, mutedSound)
     \<and> soundSetMode (\<lambda>n. 1 / 2) 2 (0, mutedSound) = Inr (0, mutedSound\<lparr>soundMode := 2\<rparr>)
     \<and> cues (mutedSound\<lparr>soundMode := 2\<rparr>) = [] \<and> ctx mutedSound \<noteq> None"
  using silent_engine_ignores_cues [of mutedSound "\<lambda>n. 1 / 2" 0 2]
  by (simp add: mutedSound_def)

section \<open>The burst and the depth axis\<close>

text \<open>
  C10. Whether a burst touches a particle is decided by its x and y only: with the
  lateral squared distance at or above the squared radius its velocity stays as it was,
  below it the x and y velocities grow by terms in \<open>dx\<close> and \<open>dy\<close> alone and the depth
  velocity by \<open>(r - 0.5) * \<bar>strength\<bar> * 0.3\<close> for a random draw \<open>r\<close>, nothing else. The
  depth coordinates are never read: overwriting any of them changes nothing in what the
  burst does.
\<close>

theorem burst_lateral_only:
  assumes "COUNT E * 3 \<le> length (velocities s)" "i < COUNT E"
  shows "let s' = burstAt E wx wy push s;
             dx = positions s ! (i * 3) - wx; dy = positions s ! (i * 3 + 1) - wy;
             distSq = dx * dx + dy * dy;
             strength = (1 - distSq / (12 * 12)) * (if push then - 3 else 3);
             dist = sqrt distSq + 0.5;
             r = random E (draws s + burstHits wx wy (12 * 12) (positions s) i)
         in (\<not> distSq < 12 * 12 \<longrightarrow> load3 (velocities s') (i * 3) = load3 (velocities s) (i * 3))
          \<and> (distSq < 12 * 12 \<longrightarrow>
               velocities s' ! (i * 3) = velocities s ! (i * 3) + (dx / dist) * strength
               \<and> velocities s' ! (i * 3 + 1) = velocities s ! (i * 3 + 1) + (dy / dist) * strength
               \<and> velocities s' ! (i * 3 + 2)
                   = velocities s ! (i * 3 + 2) + (r - 0.5) * \<bar>strength\<bar> * 0.3)
          \<and> (\<forall>j z. burstAt E wx wy push (s\<lparr>positions := (positions s)[j * 3 + 2 := z]\<rparr>)
                      = s'\<lparr>positions := (positions s)[j * 3 + 2 := z]\<rparr>)"
proof -
  let ?dx = "positions s ! (i * 3) - wx" and ?dy = "positions s ! (i * 3 + 1) - wy"
  let ?distSq = "?dx * ?dx + ?dy * ?dy"
  let ?strength = "(1 - ?distSq / (12 * 12)) * (if push then - 3 else 3)"
  let ?dist = "sqrt ?distSq + 0.5"
  from burstAt_result [OF assms(1), of wx wy push] assms(2) obtain V where
    r: "velocities (burstAt E wx wy push s) = V"
    and each: "load3 V (i * 3)
                 = (if ?distSq < 12 * 12 then
                      (velocities s ! (i * 3) + (?dx / ?dist) * ?strength,
                       velocities s ! (i * 3 + 1) + (?dy / ?dist) * ?strength,
                       velocities s ! (i * 3 + 2)
                         + (random E (draws s + burstHits wx wy (12 * 12) (positions s) i) - 0.5)
                           * \<bar>?strength\<bar> * 0.3)
                    else load3 (velocities s) (i * 3))"
    unfolding Let_def by auto
  have miss: "\<not> ?distSq < 12 * 12 \<longrightarrow>
                load3 (velocities (burstAt E wx wy push s)) (i * 3) = load3 (velocities s) (i * 3)"
    using each unfolding r by simp
  have hit: "?distSq < 12 * 12 \<longrightarrow>
               velocities (burstAt E wx wy push s) ! (i * 3)
                 = velocities s ! (i * 3) + (?dx / ?dist) * ?strength
               \<and> velocities (burstAt E wx wy push s) ! (i * 3 + 1)
                   = velocities s ! (i * 3 + 1) + (?dy / ?dist) * ?strength
               \<and> velocities (burstAt E wx wy push s) ! (i * 3 + 2)
                   = velocities s ! (i * 3 + 2)
                     + (random E (draws s + burstHits wx wy (12 * 12) (positions s) i) - 0.5)
                       * \<bar>?strength\<bar> * 0.3"
  proof
    assume h: "?distSq < 12 * 12"
    have "load3 V (i * 3)
            = (velocities s ! (i * 3) + (?dx / ?dist) * ?strength,
               velocities s ! (i * 3 + 1) + (?dy / ?dist) * ?strength,
               velocities s ! (i * 3 + 2)
                 + (random E (draws s + burstHits wx wy (12 * 12) (positions s) i) - 0.5)
                   * \<bar>?strength\<bar> * 0.3)"
      using each h by (simp only: if_True)
    then have "V ! (i * 3) = velocities s ! (i * 3) + (?dx / ?dist) * ?strength
        \<and> V ! (i * 3 + 1) = velocities s ! (i * 3 + 1) + (?dy / ?dist) * ?strength
        \<and> V ! (i * 3 + 2) = velocities s ! (i * 3 + 2)
                 + (random E (draws s + burstHits wx wy (12 * 12) (positions s) i) - 0.5)
                   * \<bar>?strength\<bar> * 0.3"
      unfolding load3_def by (simp only: prod.inject)
    then show "velocities (burstAt E wx wy push s) ! (i * 3)
                 = velocities s ! (i * 3) + (?dx / ?dist) * ?strength
               \<and> velocities (burstAt E wx wy push s) ! (i * 3 + 1)
                   = velocities s ! (i * 3 + 1) + (?dy / ?dist) * ?strength
               \<and> velocities (burstAt E wx wy push s) ! (i * 3 + 2)
                   = velocities s ! (i * 3 + 2)
                     + (random E (draws s + burstHits wx wy (12 * 12) (positions s) i) - 0.5)
                       * \<bar>?strength\<bar> * 0.3"
      unfolding r .
  qed
  have depth: "burstAt E wx wy push (s\<lparr>positions := (positions s)[j * 3 + 2 := z]\<rparr>)
                 = (burstAt E wx wy push s)\<lparr>positions := (positions s)[j * 3 + 2 := z]\<rparr>" for j z
    by (rule burstAt_depth) presburger
  show ?thesis
    unfolding Let_def using miss hit depth by blast
qed

theorem burst_lateral_only_witness:
  "load3 (velocities (burstAt (calmEnv 2) 0 0 False clickWorld)) 3 = (0, 0, 0)
     \<and> velocities (burstAt (calmEnv 2) 0 0 False clickWorld) ! 2 = 0
     \<and> burstAt (calmEnv 2) 0 0 False (clickWorld\<lparr>positions := (positions clickWorld)[2 := 100]\<rparr>)
         = (burstAt (calmEnv 2) 0 0 False clickWorld)
             \<lparr>positions := (positions clickWorld)[2 := 100]\<rparr>"
proof -
  have len: "COUNT (calmEnv 2) * 3 \<le> length (velocities clickWorld)"
    by (simp add: calmEnv_def clickWorld_def restWorld_def)
  have far: "\<not> (positions clickWorld ! (1 * 3) - 0) * (positions clickWorld ! (1 * 3) - 0)
      + (positions clickWorld ! (1 * 3 + 1) - 0) * (positions clickWorld ! (1 * 3 + 1) - 0)
      < (12 * 12 :: real)"
    by (simp add: clickWorld_def restWorld_def)
  have near: "(positions clickWorld ! (0 * 3) - 0) * (positions clickWorld ! (0 * 3) - 0)
      + (positions clickWorld ! (0 * 3 + 1) - 0) * (positions clickWorld ! (0 * 3 + 1) - 0)
      < (12 * 12 :: real)"
    by (simp add: clickWorld_def restWorld_def)
  have one: "(1::nat) < COUNT (calmEnv 2)" and zero: "(0::nat) < COUNT (calmEnv 2)"
    by (simp_all add: calmEnv_def)
  have a: "load3 (velocities (burstAt (calmEnv 2) 0 0 False clickWorld)) 3 = (0, 0, 0)"
    using burst_lateral_only [OF len one, of 0 0 False] far
    by (simp add: Let_def load3_def clickWorld_def restWorld_def)
  have b: "velocities (burstAt (calmEnv 2) 0 0 False clickWorld) ! 2 = 0
     \<and> burstAt (calmEnv 2) 0 0 False (clickWorld\<lparr>positions := (positions clickWorld)[2 := 100]\<rparr>)
         = (burstAt (calmEnv 2) 0 0 False clickWorld)
             \<lparr>positions := (positions clickWorld)[2 := 100]\<rparr>"
  proof -
    from burst_lateral_only [OF len zero, of 0 0 False] near
    have v: "velocities (burstAt (calmEnv 2) 0 0 False clickWorld) ! (0 * 3 + 2)
          = velocities clickWorld ! (0 * 3 + 2)
            + (random (calmEnv 2) (draws clickWorld
                 + burstHits 0 0 (12 * 12) (positions clickWorld) 0) - 0.5)
              * \<bar>(1 - ((positions clickWorld ! (0 * 3) - 0) * (positions clickWorld ! (0 * 3) - 0)
                  + (positions clickWorld ! (0 * 3 + 1) - 0) * (positions clickWorld ! (0 * 3 + 1) - 0))
                   / (12 * 12)) * (if False then - 3 else 3)\<bar> * 0.3"
      and d: "\<forall>j z. burstAt (calmEnv 2) 0 0 False
                      (clickWorld\<lparr>positions := (positions clickWorld)[j * 3 + 2 := z]\<rparr>)
                    = (burstAt (calmEnv 2) 0 0 False clickWorld)
                        \<lparr>positions := (positions clickWorld)[j * 3 + 2 := z]\<rparr>"
      unfolding Let_def by blast+
    have "velocities (burstAt (calmEnv 2) 0 0 False clickWorld) ! 2 = 0"
      using v by (simp add: calmEnv_def clickWorld_def restWorld_def numeral_2_eq_2)
    moreover from d [rule_format, of 0 100]
    have "burstAt (calmEnv 2) 0 0 False (clickWorld\<lparr>positions := (positions clickWorld)[2 := 100]\<rparr>)
         = (burstAt (calmEnv 2) 0 0 False clickWorld)
             \<lparr>positions := (positions clickWorld)[2 := 100]\<rparr>"
      by (simp add: numeral_2_eq_2)
    ultimately show ?thesis by simp
  qed
  show ?thesis using a b by simp
qed

end
